theory Spec2Isabelle
  imports
    Complex_Main
    "HOL-Library.Sublist"
    "HOL-Library.Char_ord"
    "HOL-Library.List_Lexorder"
    "HOL-Library.AList"
    "HOL-Library.Log_Nat"
begin

section \<open>Python values\<close>

text \<open>
  The financial figures are Python floats; a finite float is modelled by the real number
  it denotes (the specification speaks of ``optional real''), and \<open>None\<close> is \<open>None\<close>.
  Exceptions are values of \<open>exn\<close>; a call that may raise returns \<open>exn + 'a\<close>.
\<close>

datatype exn =
  ValueError | KeyError | ZeroDivisionError | AttributeError | FileNotFoundError |
  JSONDecodeError | OSError | ProviderError | StorageError

text \<open>
  Python's \<^verbatim>\<open>a / b\<close> raises on a zero divisor. \<open>py_truediv\<close> is the exact quotient: the
  mean of \<^verbatim>\<open>_calculate_average_fcf\<close> is taken exactly, as the specification states it.
\<close>

definition py_truediv :: "real \<Rightarrow> real \<Rightarrow> exn + real" where
  "py_truediv a b = (if b = 0 then Inl ZeroDivisionError else Inr (a / b))"

text \<open>The nearest integer, a tie going to the even one.\<close>

definition round_half_even :: "real \<Rightarrow> int" where
  "round_half_even y =
     (let f = \<lfloor>y\<rfloor>; d = y - of_int f
      in if d < 1 / 2 then f else if 1 / 2 < d then f + 1 else if even f then f else f + 1)"

text \<open>
  A float is an IEEE 754 double: a significand of 53 bits and a power of two.
  \<open>float_exponent x\<close> is the exponent of the leading bit of \<open>x\<close>, \<open>ulp_exponent x\<close>
  that of the last bit of a double at \<open>x\<close> (not below \<open>- 1074\<close>, where doubles are
  subnormal), and \<open>to_double x\<close> the double nearest to the real \<open>x\<close>, a tie going to
  the even significand: the result of a float operation whose exact result is \<open>x\<close>.
  Infinities and NaN are not modelled: a result of magnitude \<open>2 ^ 1024\<close> or more, which
  Python turns into an infinity, is kept as a real.
\<close>

definition float_exponent :: "real \<Rightarrow> int" where
  "float_exponent x =
     (if 1 \<le> \<bar>x\<bar> then bitlen \<lfloor>\<bar>x\<bar>\<rfloor> - 1 else - bitlen (\<lceil>1 / \<bar>x\<bar>\<rceil> - 1))"

definition ulp_exponent :: "real \<Rightarrow> int" where
  "ulp_exponent x = max (float_exponent x - 52) (- 1074)"

definition to_double :: "real \<Rightarrow> real" where
  "to_double x =
     (if x = 0 then 0
      else of_int (round_half_even (x * 2 powi (- ulp_exponent x))) * 2 powi ulp_exponent x)"

text \<open>Python's \<^verbatim>\<open>a / b\<close> on two floats: the double nearest to the quotient.\<close>

definition float_truediv :: "real \<Rightarrow> real \<Rightarrow> exn + real" where
  "float_truediv a b = (if b = 0 then Inl ZeroDivisionError else Inr (to_double (a / b)))"

text \<open>
  Python's \<^verbatim>\<open>round(x, ndigits)\<close> on a float: the decimal with \<open>ndigits\<close> fractional digits
  nearest to the exact value of \<open>x\<close>, a tie going to the even last digit, converted to
  the nearest double.
\<close>

definition py_round :: "real \<Rightarrow> nat \<Rightarrow> real" where
  "py_round x ndigits = to_double (of_int (round_half_even (x * 10 ^ ndigits)) / 10 ^ ndigits)"

text \<open>
  The tickers of the store are ASCII byte lists, with \<^verbatim>\<open>str.upper\<close>, \<^verbatim>\<open>str.lower\<close> and
  \<^verbatim>\<open>str.strip\<close> on ASCII. \<open>str_in\<close> is the substring test \<^verbatim>\<open>a in b\<close>, on strings over
  any characters.
\<close>

definition upper_char :: "char \<Rightarrow> char" where
  "upper_char c =
     (let n = (of_char c :: nat) in if 97 \<le> n \<and> n \<le> 122 then char_of (n - 32) else c)"

definition lower_char :: "char \<Rightarrow> char" where
  "lower_char c =
     (let n = (of_char c :: nat) in if 65 \<le> n \<and> n \<le> 90 then char_of (n + 32) else c)"

definition upper :: "string \<Rightarrow> string" where
  "upper s = map upper_char s"

definition lower :: "string \<Rightarrow> string" where
  "lower s = map lower_char s"

definition is_space :: "char \<Rightarrow> bool" where
  "is_space c = ((of_char c :: nat) \<in> set [9, 10, 11, 12, 13, 28, 29, 30, 31, 32])"

definition strip :: "string \<Rightarrow> string" where
  "strip s = rev (dropWhile is_space (rev (dropWhile is_space s)))"

fun str_in :: "'c list \<Rightarrow> 'c list \<Rightarrow> bool" where
  "str_in sub [] = (sub = [])"
| "str_in sub (c # cs) = (prefix sub (c # cs) \<or> str_in sub cs)"

section \<open>Derivation of the average and the yield\<close>

text \<open>\<^verbatim>\<open>StockDatabase._calculate_average_fcf\<close>.\<close>

definition calculate_average_fcf :: "real option list \<Rightarrow> exn + real option" where
  "calculate_average_fcf fcf_values =
     (let valid_values = [v. Some v \<leftarrow> fcf_values]
      in if valid_values = [] then Inr None
         else if list_ex (\<lambda>v. v < 0) valid_values then Inr None
         else (case py_truediv (sum_list valid_values) (real (length valid_values)) of
                 Inl e \<Rightarrow> Inl e
               | Inr a \<Rightarrow> Inr (Some a)))"

text \<open>\<^verbatim>\<open>StockDatabase._calculate_fcf_yield\<close>.\<close>

definition calculate_fcf_yield :: "real option \<Rightarrow> real option \<Rightarrow> exn + real option" where
  "calculate_fcf_yield average_fcf enterprise_value =
     (case (average_fcf, enterprise_value) of
        (Some a, Some ev) \<Rightarrow>
          if ev \<le> 0 then Inr None
          else (case float_truediv a ev of
                  Inl e \<Rightarrow> Inl e
                | Inr q \<Rightarrow> Inr (Some (py_round q 3)))
      | _ \<Rightarrow> Inr None)"

text \<open>
  \<^verbatim>\<open>FreeCashFlowData\<close> and its \<^verbatim>\<open>calculate_average\<close> (stock.py). The fields carry the
  prefix \<open>f_\<close>: the names \<open>fcf_2025\<close>, ... are those of the stored record below.
\<close>

record FreeCashFlowData =
  f_fcf_2025 :: "real option"
  f_fcf_2024 :: "real option"
  f_fcf_2023 :: "real option"
  f_fcf_2022 :: "real option"
  f_fcf_2021 :: "real option"

definition calculate_average :: "FreeCashFlowData \<Rightarrow> exn + real option" where
  "calculate_average d =
     (let values = [f_fcf_2025 d, f_fcf_2024 d, f_fcf_2023 d, f_fcf_2022 d, f_fcf_2021 d];
          valid_values = [v. Some v \<leftarrow> values]
      in if valid_values = [] then Inr None
         else if list_ex (\<lambda>v. v < 0) valid_values then Inr None
         else (case py_truediv (sum_list valid_values) (real (length valid_values)) of
                 Inl e \<Rightarrow> Inl e
               | Inr a \<Rightarrow> Inr (Some a)))"

section \<open>The store\<close>

text \<open>
  A row of the table \<^verbatim>\<open>stock_financials\<close>, with the eleven columns of
  \<^verbatim>\<open>create_tables\<close>; \<^verbatim>\<open>StockRecord\<close> has the same fields. The table is the list of its
  rows in insertion order, \<open>ticker\<close> being the primary key. A timestamp is the text
  \<^verbatim>\<open>datetime.now().isoformat()\<close>; each operation takes the one it reads as \<open>now\<close>.
\<close>

type_synonym timestamp = string

record StockRecord =
  ticker :: string
  company_name :: string
  enterprise_value :: "real option"
  fcf_2025 :: "real option"
  fcf_2024 :: "real option"
  fcf_2023 :: "real option"
  fcf_2022 :: "real option"
  fcf_2021 :: "real option"
  average_fcf :: "real option"
  fcf_yield :: "real option"
  last_updated :: timestamp

type_synonym table = "StockRecord list"

text \<open>
  The dictionary \<^verbatim>\<open>data\<close> that \<^verbatim>\<open>upsert\<close> receives (built by \<^verbatim>\<open>Stock.get_all_data\<close>).
  \<^verbatim>\<open>data.get(k)\<close> is \<open>None\<close> for an absent key as for a stored \<^verbatim>\<open>None\<close>;
  \<^verbatim>\<open>data["ticker"]\<close> raises on an absent key, which is \<open>d_ticker = None\<close>.
\<close>

record stock_data =
  d_ticker :: "string option"
  d_enterprise_value :: "real option"
  d_fcf_2025 :: "real option"
  d_fcf_2024 :: "real option"
  d_fcf_2023 :: "real option"
  d_fcf_2022 :: "real option"
  d_fcf_2021 :: "real option"
  d_average_fcf :: "real option"

text \<open>\<^verbatim>\<open>INSERT OR REPLACE\<close>: the row with the same key is deleted, the new row is added.\<close>

definition insert_or_replace :: "StockRecord \<Rightarrow> table \<Rightarrow> table" where
  "insert_or_replace r db = filter (\<lambda>x. ticker x \<noteq> ticker r) db @ [r]"

text \<open>\<^verbatim>\<open>UPDATE ... SET ... WHERE ticker = ?\<close>.\<close>

definition sql_update :: "string \<Rightarrow> (StockRecord \<Rightarrow> StockRecord) \<Rightarrow> table \<Rightarrow> table" where
  "sql_update key f db = map (\<lambda>r. if ticker r = key then f r else r) db"

definition upsert :: "timestamp \<Rightarrow> table \<Rightarrow> stock_data \<Rightarrow> string \<Rightarrow> (exn + unit) \<times> table" where
  "upsert now db data name =
     (let fcf_values =
            [d_fcf_2025 data, d_fcf_2024 data, d_fcf_2023 data, d_fcf_2022 data, d_fcf_2021 data]
      in case calculate_average_fcf fcf_values of
           Inl e \<Rightarrow> (Inl e, db)
         | Inr average \<Rightarrow>
             (let ev = d_enterprise_value data
              in case calculate_fcf_yield average ev of
                   Inl e \<Rightarrow> (Inl e, db)
                 | Inr yield \<Rightarrow>
                     (case d_ticker data of
                        None \<Rightarrow> (Inl KeyError, db)
                      | Some t \<Rightarrow>
                          (Inr (),
                           insert_or_replace
                             \<lparr>ticker = t, company_name = name, enterprise_value = ev,
                              fcf_2025 = d_fcf_2025 data, fcf_2024 = d_fcf_2024 data,
                              fcf_2023 = d_fcf_2023 data, fcf_2022 = d_fcf_2022 data,
                              fcf_2021 = d_fcf_2021 data, average_fcf = average,
                              fcf_yield = yield, last_updated = now\<rparr> db))))"

text \<open>\<^verbatim>\<open>get\<close>: the select is by the uppercased ticker.\<close>

definition get :: "table \<Rightarrow> string \<Rightarrow> StockRecord option" where
  "get db t = find (\<lambda>r. ticker r = upper t) db"

text \<open>\<^verbatim>\<open>get_all\<close>: \<^verbatim>\<open>ORDER BY ticker\<close>, the byte order of the keys.\<close>

definition get_all :: "table \<Rightarrow> StockRecord list" where
  "get_all db = sort_key ticker db"

text \<open>The column \<^verbatim>\<open>fcf_{year}\<close> of the update statement.\<close>

definition set_fcf :: "int \<Rightarrow> real option \<Rightarrow> StockRecord \<Rightarrow> StockRecord" where
  "set_fcf year v r =
     (if year = 2025 then r\<lparr>fcf_2025 := v\<rparr>
      else if year = 2024 then r\<lparr>fcf_2024 := v\<rparr>
      else if year = 2023 then r\<lparr>fcf_2023 := v\<rparr>
      else if year = 2022 then r\<lparr>fcf_2022 := v\<rparr>
      else if year = 2021 then r\<lparr>fcf_2021 := v\<rparr>
      else r)"

definition update_fcf ::
  "timestamp \<Rightarrow> table \<Rightarrow> string \<Rightarrow> int \<Rightarrow> real option \<Rightarrow> (exn + bool) \<times> table" where
  "update_fcf now db t year v =
     (if year \<notin> set [2021, 2022, 2023, 2024, 2025] then (Inl ValueError, db)
      else case get db t of
        None \<Rightarrow> (Inr False, db)
      | Some record \<Rightarrow>
          (let fcf_values =
                 AList.update year v
                   [(2025, fcf_2025 record), (2024, fcf_2024 record), (2023, fcf_2023 record),
                    (2022, fcf_2022 record), (2021, fcf_2021 record)]
           in case calculate_average_fcf (map snd fcf_values) of
                Inl e \<Rightarrow> (Inl e, db)
              | Inr average \<Rightarrow>
                  (case calculate_fcf_yield average (enterprise_value record) of
                     Inl e \<Rightarrow> (Inl e, db)
                   | Inr yield \<Rightarrow>
                       (Inr True,
                        sql_update (upper t)
                          (\<lambda>r. (set_fcf year v r)
                             \<lparr>average_fcf := average, fcf_yield := yield, last_updated := now\<rparr>)
                          db))))"

definition update_enterprise_value ::
  "timestamp \<Rightarrow> table \<Rightarrow> string \<Rightarrow> real option \<Rightarrow> (exn + bool) \<times> table" where
  "update_enterprise_value now db t v =
     (case get db t of
        None \<Rightarrow> (Inr False, db)
      | Some record \<Rightarrow>
          (case calculate_fcf_yield (average_fcf record) v of
             Inl e \<Rightarrow> (Inl e, db)
           | Inr yield \<Rightarrow>
               (Inr True,
                sql_update (upper t)
                  (\<lambda>r. r\<lparr>enterprise_value := v, fcf_yield := yield, last_updated := now\<rparr>)
                  db)))"

text \<open>
  The five stored year values in the order of \<^verbatim>\<open>upsert\<close>'s list, the value of one year
  (\<^verbatim>\<open>fcf_{year}\<close>), and what it means for the two derived fields of a row to equal their
  recomputation from the row's own inputs.
\<close>

definition fcf_years :: "StockRecord \<Rightarrow> real option list" where
  "fcf_years r = [fcf_2025 r, fcf_2024 r, fcf_2023 r, fcf_2022 r, fcf_2021 r]"

definition fcf_of :: "int \<Rightarrow> StockRecord \<Rightarrow> real option" where
  "fcf_of year r =
     (if year = 2025 then fcf_2025 r
      else if year = 2024 then fcf_2024 r
      else if year = 2023 then fcf_2023 r
      else if year = 2022 then fcf_2022 r
      else if year = 2021 then fcf_2021 r
      else None)"

definition average_ok :: "StockRecord \<Rightarrow> bool" where
  "average_ok r \<longleftrightarrow> calculate_average_fcf (fcf_years r) = Inr (average_fcf r)"

definition yield_ok :: "StockRecord \<Rightarrow> bool" where
  "yield_ok r \<longleftrightarrow> calculate_fcf_yield (average_fcf r) (enterprise_value r) = Inr (fcf_yield r)"

definition derived_ok :: "StockRecord \<Rightarrow> bool" where
  "derived_ok r \<longleftrightarrow> average_ok r \<and> yield_ok r"

text \<open>A stored row, for the concrete instances of the theorems below.\<close>

definition row_aapl :: StockRecord where
  "row_aapl =
     \<lparr>ticker = ''AAPL'', company_name = ''Apple Inc.'', enterprise_value = Some 10000,
      fcf_2025 = Some 100, fcf_2024 = Some 200, fcf_2023 = None, fcf_2022 = None,
      fcf_2021 = None, average_fcf = Some 150, fcf_yield = Some (to_double (15 / 1000)),
      last_updated = ''2026-01-01T22:00:00''\<rparr>"

definition data_aapl :: stock_data where
  "data_aapl =
     \<lparr>d_ticker = Some ''AAPL'', d_enterprise_value = Some 10000, d_fcf_2025 = Some 100,
      d_fcf_2024 = Some 200, d_fcf_2023 = None, d_fcf_2022 = None, d_fcf_2021 = None,
      d_average_fcf = Some 150\<rparr>"

section \<open>The ticker resolver\<close>

text \<open>
  The strings of the resolver are Python strings: lists of characters of any type \<open>'c\<close>
  (code points), with the methods \<^verbatim>\<open>upper\<close>, \<^verbatim>\<open>lower\<close> and \<^verbatim>\<open>strip\<close> of that character
  set taken as they are. \<open>ascii\<close> are the methods on ASCII byte lists.
\<close>

record 'c str_methods =
  str_upper :: "'c list \<Rightarrow> 'c list"
  str_lower :: "'c list \<Rightarrow> 'c list"
  str_strip :: "'c list \<Rightarrow> 'c list"

definition ascii :: "char str_methods" where
  "ascii = \<lparr>str_upper = upper, str_lower = lower, str_strip = strip\<rparr>"

text \<open>
  A value of the parsed JSON file, as far as the resolver tells values apart:
  \<^verbatim>\<open>None\<close>, a string, or anything else (a number, a list, an object), which like
  \<^verbatim>\<open>None\<close> has no method \<^verbatim>\<open>upper\<close>, \<^verbatim>\<open>lower\<close> or \<^verbatim>\<open>get\<close>. An entry is an object with its
  keys \<^verbatim>\<open>ticker\<close>, \<^verbatim>\<open>title\<close> and \<^verbatim>\<open>cik_str\<close>, each absent or holding a value. The root of the
  file is an object, given by its values in the order of \<^verbatim>\<open>data.values()\<close> (a value that
  is not an object is \<open>None\<close>), or something else.
\<close>

datatype 'c pyval = PyNone | PyStr "'c list" | PyOther

record 'c json_entry =
  e_ticker :: "'c pyval option"
  e_title :: "'c pyval option"
  e_cik_str :: "'c pyval option"

datatype 'c json_root = RootOther | RootDict "'c json_entry option list"

text \<open>
  \<^verbatim>\<open>Company\<close>; its field \<^verbatim>\<open>ticker\<close> is \<open>company_ticker\<close> here. The fields hold what
  \<^verbatim>\<open>entry.get\<close> returned: for an absent key the default, \<^verbatim>\<open>""\<close> or \<^verbatim>\<open>None\<close>.
\<close>

record 'c Company =
  company_ticker :: "'c pyval"
  title :: "'c pyval"
  cik_str :: "'c pyval"

record 'c TickerResolver =
  companies :: "'c Company list"
  ticker_map :: "'c list \<rightharpoonup> 'c Company"

definition company_of :: "'c json_entry \<Rightarrow> 'c Company" where
  "company_of entry =
     \<lparr>company_ticker = (case e_ticker entry of None \<Rightarrow> PyStr [] | Some v \<Rightarrow> v),
      title = (case e_title entry of None \<Rightarrow> PyStr [] | Some v \<Rightarrow> v),
      cik_str = (case e_cik_str entry of None \<Rightarrow> PyNone | Some v \<Rightarrow> v)\<rparr>"

text \<open>
  The loop of \<^verbatim>\<open>_load_data\<close> over \<^verbatim>\<open>data.values()\<close>. \<^verbatim>\<open>entry.get\<close> raises
  \<^verbatim>\<open>AttributeError\<close> on a value that is not an object, and \<^verbatim>\<open>company.ticker.upper()\<close> on a
  ticker that is not a string, the company being appended already. The result is the
  exception raised, if any, and the resolver as the loop left it.
\<close>

fun load_entries ::
  "'c str_methods \<Rightarrow> 'c json_entry option list \<Rightarrow> 'c TickerResolver \<Rightarrow>
   exn option \<times> 'c TickerResolver" where
  "load_entries sm [] r = (None, r)"
| "load_entries sm (None # entries) r = (Some AttributeError, r)"
| "load_entries sm (Some entry # entries) r =
     (let company = company_of entry;
          r = r\<lparr>companies := companies r @ [company]\<rparr>
      in case company_ticker company of
           PyStr t \<Rightarrow>
             load_entries sm entries
               (r\<lparr>ticker_map := (ticker_map r)(str_upper sm t \<mapsto> company)\<rparr>)
         | PyNone \<Rightarrow> (Some AttributeError, r)
         | PyOther \<Rightarrow> (Some AttributeError, r))"

text \<open>
  \<^verbatim>\<open>_load_data\<close>: the argument is what opening and parsing the file gives, an exception or
  the root of the file. The handler catches \<^verbatim>\<open>FileNotFoundError\<close> and \<^verbatim>\<open>JSONDecodeError\<close>
  only; \<^verbatim>\<open>data.values()\<close> raises \<^verbatim>\<open>AttributeError\<close> on a root that is not an object.
\<close>

definition load_data ::
  "'c str_methods \<Rightarrow> exn + 'c json_root \<Rightarrow> exn option \<times> 'c TickerResolver" where
  "load_data sm contents =
     (let r = \<lparr>companies = [], ticker_map = Map.empty\<rparr>
      in case contents of
           Inl e \<Rightarrow> if e = FileNotFoundError \<or> e = JSONDecodeError then (None, r) else (Some e, r)
         | Inr RootOther \<Rightarrow> (Some AttributeError, r)
         | Inr (RootDict entries) \<Rightarrow> load_entries sm entries r)"

text \<open>
  The loop of \<^verbatim>\<open>resolve\<close> over the companies; \<^verbatim>\<open>company.title.lower()\<close> raises on a title
  that is not a string.
\<close>

fun partial_match :: "'c str_methods \<Rightarrow> 'c list \<Rightarrow> 'c Company list \<Rightarrow> exn + 'c pyval option" where
  "partial_match sm input_lower [] = Inr None"
| "partial_match sm input_lower (company # cs) =
     (case title company of
        PyStr t \<Rightarrow>
          if str_in input_lower (str_lower sm t) then Inr (Some (company_ticker company))
          else partial_match sm input_lower cs
      | PyNone \<Rightarrow> Inl AttributeError
      | PyOther \<Rightarrow> Inl AttributeError)"

text \<open>
  \<^verbatim>\<open>resolve\<close>. \<open>self\<close> is \<open>None\<close> before the data is loaded (\<^verbatim>\<open>_ticker_map is None\<close>):
  the first access loads it, and an exception of the load leaves the resolver loaded as
  far as the loop got. The subscript \<^verbatim>\<open>self.ticker_map[input_upper]\<close> raises on an absent
  key. The result is the value returned or the exception, and the resolver afterwards.
\<close>

definition resolve ::
  "'c str_methods \<Rightarrow> exn + 'c json_root \<Rightarrow> 'c TickerResolver option \<Rightarrow> 'c list \<Rightarrow>
   (exn + 'c pyval) \<times> 'c TickerResolver option" where
  "resolve sm contents self user_input =
     (let user_input = str_strip sm user_input;
          input_upper = str_upper sm user_input;
          input_lower = str_lower sm user_input;
          loaded = (case self of None \<Rightarrow> load_data sm contents | Some r \<Rightarrow> (None, r));
          r = snd loaded
      in case fst loaded of
           Some e \<Rightarrow> (Inl e, Some r)
         | None \<Rightarrow>
             (if ticker_map r input_upper \<noteq> None
              then (case ticker_map r input_upper of
                      None \<Rightarrow> Inl KeyError
                    | Some company \<Rightarrow> Inr (company_ticker company))
              else (case partial_match sm input_lower (companies r) of
                      Inl e \<Rightarrow> Inl e
                    | Inr (Some t) \<Rightarrow> Inr t
                    | Inr None \<Rightarrow> Inr (PyStr input_upper)),
              Some r))"

text \<open>
  A directory file that loads: reading it raises one of the two exceptions of the
  handler, or its root is an object whose values are objects with a ticker and a title
  that are strings or absent. \<open>ticker_str\<close> and \<open>title_str\<close> read the two strings of a
  company.
\<close>

definition well_formed_entry :: "'c json_entry option \<Rightarrow> bool" where
  "well_formed_entry x =
     (case x of
        None \<Rightarrow> False
      | Some entry \<Rightarrow>
          (case e_ticker entry of None \<Rightarrow> True | Some (PyStr t) \<Rightarrow> True | Some v \<Rightarrow> False) \<and>
          (case e_title entry of None \<Rightarrow> True | Some (PyStr t) \<Rightarrow> True | Some v \<Rightarrow> False))"

definition well_formed :: "exn + 'c json_root \<Rightarrow> bool" where
  "well_formed contents =
     (case contents of
        Inl e \<Rightarrow> e = FileNotFoundError \<or> e = JSONDecodeError
      | Inr RootOther \<Rightarrow> False
      | Inr (RootDict entries) \<Rightarrow> list_all well_formed_entry entries)"

definition ticker_str :: "'c Company \<Rightarrow> 'c list" where
  "ticker_str c = (case company_ticker c of PyStr t \<Rightarrow> t | PyNone \<Rightarrow> [] | PyOther \<Rightarrow> [])"

definition title_str :: "'c Company \<Rightarrow> 'c list" where
  "title_str c = (case title c of PyStr t \<Rightarrow> t | PyNone \<Rightarrow> [] | PyOther \<Rightarrow> [])"

text \<open>
  A directory file of three entries, and one whose second entry has a null ticker, for
  the concrete instances below.
\<close>

definition directory_file :: "char json_root" where
  "directory_file =
     RootDict
       [Some \<lparr>e_ticker = Some (PyStr ''AAPL''), e_title = Some (PyStr ''Apple Inc.''),
              e_cik_str = Some PyOther\<rparr>,
        Some \<lparr>e_ticker = Some (PyStr ''APLE''),
              e_title = Some (PyStr ''Apple Hospitality REIT, Inc.''), e_cik_str = Some PyOther\<rparr>,
        Some \<lparr>e_ticker = Some (PyStr ''MSFT''), e_title = Some (PyStr ''MICROSOFT CORP''),
              e_cik_str = Some PyOther\<rparr>]"

definition null_ticker_file :: "char json_root" where
  "null_ticker_file =
     RootDict
       [Some \<lparr>e_ticker = Some (PyStr ''AAPL''), e_title = Some (PyStr ''Apple Inc.''),
              e_cik_str = Some PyOther\<rparr>,
        Some \<lparr>e_ticker = Some PyNone, e_title = Some (PyStr ''Apple Hospitality REIT, Inc.''),
              e_cik_str = Some PyOther\<rparr>]"

section \<open>The data provider\<close>

text \<open>
  A cell of a cash-flow statement is \<^verbatim>\<open>None\<close>, a NaN or a number; \<open>cell_value\<close> is the
  number of a cell that passes the test
  \<^verbatim>\<open>val is not None and not (isinstance(val, float) and val != val)\<close>.
  A statement (a data frame) has its row labels, the years of its column dates in column
  order, and the cell of a row label and a column position. It is \<^verbatim>\<open>empty\<close> when it has no
  row or no column.
\<close>

datatype cell = NoneCell | NaN | Num real

fun cell_value :: "cell \<Rightarrow> real option" where
  "cell_value (Num v) = Some v"
| "cell_value NoneCell = None"
| "cell_value NaN = None"

record frame =
  fr_index :: "string list"
  fr_columns :: "int list"
  fr_cell :: "string \<Rightarrow> nat \<Rightarrow> cell"

definition empty_frame :: "frame \<Rightarrow> bool" where
  "empty_frame f \<longleftrightarrow> fr_index f = [] \<or> fr_columns f = []"

text \<open>
  What the remote service answers for a ticker: each fetch raises or returns. \<open>info\<close> is
  the dictionary of \<^verbatim>\<open>yf_ticker.info\<close> restricted to its numeric entries.
\<close>

record provider =
  info :: "string \<Rightarrow> exn + (string \<rightharpoonup> real)"
  cash_flow :: "string \<Rightarrow> exn + frame"
  quarterly_cash_flow :: "string \<Rightarrow> exn + frame"

text \<open>\<^verbatim>\<open>Stock(ticker)\<close> holds \<^verbatim>\<open>ticker.upper().strip()\<close>; the object is modelled by it.\<close>

definition Stock :: "string \<Rightarrow> string" where
  "Stock t = strip (upper t)"

definition TARGET_YEARS :: "int list" where
  "TARGET_YEARS = [2025, 2024, 2023, 2022, 2021]"

text \<open>\<^verbatim>\<open>setattr(result, f"fcf_{year}", value)\<close> and \<^verbatim>\<open>getattr(fcf_data, f"fcf_{year}")\<close>.\<close>

definition setattr_fcf :: "int \<Rightarrow> real option \<Rightarrow> FreeCashFlowData \<Rightarrow> FreeCashFlowData" where
  "setattr_fcf year v d =
     (if year = 2025 then d\<lparr>f_fcf_2025 := v\<rparr>
      else if year = 2024 then d\<lparr>f_fcf_2024 := v\<rparr>
      else if year = 2023 then d\<lparr>f_fcf_2023 := v\<rparr>
      else if year = 2022 then d\<lparr>f_fcf_2022 := v\<rparr>
      else if year = 2021 then d\<lparr>f_fcf_2021 := v\<rparr>
      else d)"

definition getattr_fcf :: "int \<Rightarrow> FreeCashFlowData \<Rightarrow> real option" where
  "getattr_fcf year d =
     (if year = 2025 then f_fcf_2025 d
      else if year = 2024 then f_fcf_2024 d
      else if year = 2023 then f_fcf_2023 d
      else if year = 2022 then f_fcf_2022 d
      else if year = 2021 then f_fcf_2021 d
      else None)"

definition get_enterprise_value :: "provider \<Rightarrow> string \<Rightarrow> real option" where
  "get_enterprise_value p stock =
     (case info p stock of
        Inl e \<Rightarrow> None
      | Inr d \<Rightarrow> d ''enterpriseValue'')"

definition calculate_ttm_fcf :: "provider \<Rightarrow> string \<Rightarrow> real option" where
  "calculate_ttm_fcf p stock =
     (case quarterly_cash_flow p stock of
        Inl e \<Rightarrow> None
      | Inr q \<Rightarrow>
          if empty_frame q then None
          else if ''Free Cash Flow'' \<notin> set (fr_index q) then None
          else (let valid_quarters =
                      List.map_filter (\<lambda>col. cell_value (fr_cell q ''Free Cash Flow'' col))
                        [0 ..< min 4 (length (fr_columns q))]
                in if length valid_quarters = 4 then Some (sum_list valid_quarters) else None))"

definition annual_column :: "frame \<Rightarrow> nat \<times> int \<Rightarrow> FreeCashFlowData \<Rightarrow> FreeCashFlowData" where
  "annual_column a = (\<lambda>(col, year) result.
     if year \<in> set TARGET_YEARS
     then (case cell_value (fr_cell a ''Free Cash Flow'' col) of
             Some v \<Rightarrow> setattr_fcf year (Some v) result
           | None \<Rightarrow> result)
     else result)"

definition get_free_cash_flow :: "provider \<Rightarrow> string \<Rightarrow> FreeCashFlowData" where
  "get_free_cash_flow p stock =
     (let result = \<lparr>f_fcf_2025 = None, f_fcf_2024 = None, f_fcf_2023 = None,
                    f_fcf_2022 = None, f_fcf_2021 = None\<rparr>
      in case cash_flow p stock of
           Inl e \<Rightarrow> result
         | Inr a \<Rightarrow>
             (let result =
                    (if \<not> empty_frame a \<and> ''Free Cash Flow'' \<in> set (fr_index a)
                     then fold (annual_column a) (enumerate 0 (fr_columns a)) result
                     else result)
              in if f_fcf_2025 result = None
                 then (case calculate_ttm_fcf p stock of
                         Some ttm_fcf \<Rightarrow> result\<lparr>f_fcf_2025 := Some ttm_fcf\<rparr>
                       | None \<Rightarrow> result)
                 else result))"

text \<open>
  The figure the annual statement publishes for a year: the number in the row
  ``Free Cash Flow'' of the last column dated in that year that holds one.
\<close>

definition annual_figure :: "frame \<Rightarrow> int \<Rightarrow> real option" where
  "annual_figure a year =
     (if empty_frame a \<or> ''Free Cash Flow'' \<notin> set (fr_index a) then None
      else (case filter (\<lambda>(col, y). y = year \<and> cell_value (fr_cell a ''Free Cash Flow'' col) \<noteq> None)
                  (enumerate 0 (fr_columns a)) of
              [] \<Rightarrow> None
            | c # cs \<Rightarrow> cell_value (fr_cell a ''Free Cash Flow'' (fst (last (c # cs))))))"

text \<open>Providers and statements for the concrete instances below.\<close>

definition quarters_25 :: frame where
  "quarters_25 =
     \<lparr>fr_index = [''Free Cash Flow''], fr_columns = [2025, 2025, 2025, 2024],
      fr_cell = (\<lambda>row col. Num 25)\<rparr>"

definition annual_2024 :: frame where
  "annual_2024 =
     \<lparr>fr_index = [''Free Cash Flow''], fr_columns = [2024, 2023],
      fr_cell = (\<lambda>row col. if col = 0 then Num 200 else NaN)\<rparr>"

definition provider_annual_down :: provider where
  "provider_annual_down =
     \<lparr>info = (\<lambda>t. Inr [''enterpriseValue'' \<mapsto> 2000]),
      cash_flow = (\<lambda>t. Inl ProviderError),
      quarterly_cash_flow = (\<lambda>t. Inr quarters_25)\<rparr>"

definition provider_up :: provider where
  "provider_up =
     \<lparr>info = (\<lambda>t. Inr [''enterpriseValue'' \<mapsto> 2000]),
      cash_flow = (\<lambda>t. Inr annual_2024),
      quarterly_cash_flow = (\<lambda>t. Inr quarters_25)\<rparr>"

section \<open>The refresh jobs\<close>

text \<open>
  A store call of a job may raise in the storage backend; \<open>fails\<close> says for which
  ticker (and year) it does, and the table is then as before the call. \<open>now_at\<close> is
  the timestamp read by the call made for a ticker (and year). A job returns the table
  and the two counters of its closing message.
\<close>

definition store_call :: "bool \<Rightarrow> table \<Rightarrow> (exn + bool) \<times> table \<Rightarrow> (exn + bool) \<times> table" where
  "store_call fails db result = (if fails then (Inl StorageError, db) else result)"

definition ev_step ::
  "(string \<Rightarrow> timestamp) \<Rightarrow> (string \<Rightarrow> bool) \<Rightarrow> provider \<Rightarrow> StockRecord \<Rightarrow>
   table \<times> nat \<times> nat \<Rightarrow> table \<times> nat \<times> nat" where
  "ev_step now_at fails p record = (\<lambda>(db, success, errors).
     (let stock = Stock (ticker record);
          new_ev = get_enterprise_value p stock
      in case new_ev of
           None \<Rightarrow> (db, success, errors)
         | Some v \<Rightarrow>
             (case store_call (fails (ticker record)) db
                     (update_enterprise_value (now_at (ticker record)) db (ticker record) (Some v)) of
                (Inl e, db') \<Rightarrow> (db', success, errors + 1)
              | (Inr found, db') \<Rightarrow> (db', success + 1, errors))))"

definition refresh_enterprise_values ::
  "(string \<Rightarrow> timestamp) \<Rightarrow> (string \<Rightarrow> bool) \<Rightarrow> provider \<Rightarrow> table \<Rightarrow> table \<times> nat \<times> nat" where
  "refresh_enterprise_values now_at fails p db =
     fold (ev_step now_at fails p) (get_all db) (db, 0, 0)"

text \<open>The inner loop of \<^verbatim>\<open>refresh_fcf_values\<close> over the years; an exception ends it.\<close>

fun update_years ::
  "(string \<Rightarrow> int \<Rightarrow> timestamp) \<Rightarrow> (string \<Rightarrow> int \<Rightarrow> bool) \<Rightarrow> FreeCashFlowData \<Rightarrow> string \<Rightarrow>
   int list \<Rightarrow> table \<Rightarrow> (exn + unit) \<times> table" where
  "update_years now_at fails fcf_data t [] db = (Inr (), db)"
| "update_years now_at fails fcf_data t (year # years) db =
     (case getattr_fcf year fcf_data of
        None \<Rightarrow> update_years now_at fails fcf_data t years db
      | Some fcf_value \<Rightarrow>
          (case store_call (fails t year) db
                  (update_fcf (now_at t year) db t year (Some fcf_value)) of
             (Inl e, db') \<Rightarrow> (Inl e, db')
           | (Inr found, db') \<Rightarrow> update_years now_at fails fcf_data t years db'))"

definition fcf_step ::
  "(string \<Rightarrow> int \<Rightarrow> timestamp) \<Rightarrow> (string \<Rightarrow> int \<Rightarrow> bool) \<Rightarrow> provider \<Rightarrow> StockRecord \<Rightarrow>
   table \<times> nat \<times> nat \<Rightarrow> table \<times> nat \<times> nat" where
  "fcf_step now_at fails p record = (\<lambda>(db, success, errors).
     (let stock = Stock (ticker record);
          fcf_data = get_free_cash_flow p stock
      in case update_years now_at fails fcf_data (ticker record)
                [2025, 2024, 2023, 2022, 2021] db of
           (Inl e, db') \<Rightarrow> (db', success, errors + 1)
         | (Inr u, db') \<Rightarrow> (db', success + 1, errors)))"

definition refresh_fcf_values ::
  "(string \<Rightarrow> int \<Rightarrow> timestamp) \<Rightarrow> (string \<Rightarrow> int \<Rightarrow> bool) \<Rightarrow> provider \<Rightarrow> table \<Rightarrow>
   table \<times> nat \<times> nat" where
  "refresh_fcf_values now_at fails p db =
     fold (fcf_step now_at fails p) (get_all db) (db, 0, 0)"

text \<open>
  What a job does to the stored row \<open>r\<close> of a ticker, \<open>r'\<close> being the row afterwards.
  The enterprise-value job leaves the row alone when the provider gives no value or the
  store call raises, and otherwise stores the value with the yield recomputed. In the
  free-cash-flow job a store call raises for the ticker when it does for a year that has
  a value; when none raises, every year that has a value is stored.
\<close>

definition ev_refreshed ::
  "(string \<Rightarrow> timestamp) \<Rightarrow> (string \<Rightarrow> bool) \<Rightarrow> provider \<Rightarrow> StockRecord \<Rightarrow> StockRecord \<Rightarrow> bool" where
  "ev_refreshed now_at fails p r r' \<longleftrightarrow>
     (case get_enterprise_value p (Stock (ticker r)) of
        None \<Rightarrow> r' = r
      | Some v \<Rightarrow>
          if fails (ticker r) then r' = r
          else (case calculate_fcf_yield (average_fcf r) (Some v) of
                  Inl e \<Rightarrow> False
                | Inr y \<Rightarrow>
                    r' = r\<lparr>enterprise_value := Some v, fcf_yield := y,
                           last_updated := now_at (ticker r)\<rparr>))"

definition raises_fcf :: "(string \<Rightarrow> int \<Rightarrow> bool) \<Rightarrow> FreeCashFlowData \<Rightarrow> string \<Rightarrow> bool" where
  "raises_fcf fails d t \<longleftrightarrow>
     list_ex (\<lambda>year. getattr_fcf year d \<noteq> None \<and> fails t year) [2025, 2024, 2023, 2022, 2021]"

definition fcf_refreshed ::
  "(string \<Rightarrow> int \<Rightarrow> bool) \<Rightarrow> provider \<Rightarrow> StockRecord \<Rightarrow> StockRecord \<Rightarrow> bool" where
  "fcf_refreshed fails p r r' \<longleftrightarrow>
     (let d = get_free_cash_flow p (Stock (ticker r))
      in raises_fcf fails d (ticker r) \<or>
         (list_all (\<lambda>year. fcf_of year r' =
                      (case getattr_fcf year d of Some v \<Rightarrow> Some v | None \<Rightarrow> fcf_of year r))
            [2025, 2024, 2023, 2022, 2021] \<and>
          enterprise_value r' = enterprise_value r \<and> ticker r' = ticker r \<and>
          company_name r' = company_name r))"

text \<open>
  A table of ten tickers, and a provider whose every fetch raises for the ticker
  \<open>''E''\<close> and answers for the others.
\<close>

definition stock_row :: "string \<Rightarrow> StockRecord" where
  "stock_row t = row_aapl\<lparr>ticker := t, company_name := t\<rparr>"

definition batch_db :: table where
  "batch_db =
     map stock_row [''A'', ''B'', ''C'', ''D'', ''E'', ''F'', ''G'', ''H'', ''I'', ''J'']"

definition provider_e_down :: provider where
  "provider_e_down =
     \<lparr>info = (\<lambda>t. if t = ''E'' then Inl ProviderError else Inr [''enterpriseValue'' \<mapsto> 2000]),
      cash_flow = (\<lambda>t. if t = ''E'' then Inl ProviderError else Inr annual_2024),
      quarterly_cash_flow = (\<lambda>t. if t = ''E'' then Inl ProviderError else Inr quarters_25)\<rparr>"

section \<open>Properties of the derivation functions\<close>

lemma present_values:
  "[v. Some v \<leftarrow> vs] = map the (filter (\<lambda>x. x \<noteq> None) vs)"
  by (induction vs) (auto split: option.splits)

lemma set_present_values: "set [v. Some v \<leftarrow> vs] = {v. Some v \<in> set vs}"
  by (induction vs) (auto split: option.splits)

lemma calculate_average_fcf_eq:
  "calculate_average_fcf vs =
     (if \<forall>v. Some v \<notin> set vs then Inr None
      else if \<exists>v. Some v \<in> set vs \<and> v < 0 then Inr None
      else Inr (Some (sum_list (map the (filter (\<lambda>x. x \<noteq> None) vs))
                       / real (length (filter (\<lambda>x. x \<noteq> None) vs)))))"
proof -
  let ?p = "[v. Some v \<leftarrow> vs]"
  have e: "?p = [] \<longleftrightarrow> (\<forall>v. Some v \<notin> set vs)"
    using set_present_values [of vs] by (metis (mono_tags, lifting) empty_Collect_eq empty_iff mem_Collect_eq set_empty)
  have n: "list_ex (\<lambda>v. v < 0) ?p \<longleftrightarrow> (\<exists>v. Some v \<in> set vs \<and> v < 0)"
    unfolding list_ex_iff set_present_values by auto
  have l: "?p \<noteq> [] \<Longrightarrow> real (length ?p) \<noteq> 0" by simp
  show ?thesis
    unfolding calculate_average_fcf_def Let_def e n
    using l e by (auto simp: py_truediv_def present_values)
qed

text \<open>
  Claim C2. The average of any sequence of optional values (of the five stored years in
  particular) is \<open>None\<close> when no value is present, \<open>None\<close> when a present value is
  negative, whatever the others are, and otherwise the arithmetic mean of exactly the
  present values. It never raises. \<^verbatim>\<open>FreeCashFlowData.calculate_average\<close> is the same
  function of its five fields.
\<close>

theorem average_of_present_values:
  "((\<forall>v. Some v \<notin> set vs) \<longrightarrow> calculate_average_fcf vs = Inr None) \<and>
   ((\<exists>v. Some v \<in> set vs \<and> v < 0) \<longrightarrow> calculate_average_fcf vs = Inr None) \<and>
   ((\<exists>v. Some v \<in> set vs) \<and> (\<forall>v. Some v \<in> set vs \<longrightarrow> 0 \<le> v) \<longrightarrow>
      calculate_average_fcf vs =
        Inr (Some (sum_list (map the (filter (\<lambda>x. x \<noteq> None) vs))
                    / real (length (filter (\<lambda>x. x \<noteq> None) vs))))) \<and>
   calculate_average d =
     calculate_average_fcf [f_fcf_2025 d, f_fcf_2024 d, f_fcf_2023 d, f_fcf_2022 d, f_fcf_2021 d]"
proof -
  have "calculate_average d =
     calculate_average_fcf [f_fcf_2025 d, f_fcf_2024 d, f_fcf_2023 d, f_fcf_2022 d, f_fcf_2021 d]"
    unfolding calculate_average_def calculate_average_fcf_def Let_def ..
  moreover have "(\<exists>v. Some v \<in> set vs \<and> v < 0) \<Longrightarrow> calculate_average_fcf vs = Inr None"
    by (subst calculate_average_fcf_eq) auto
  moreover have "(\<exists>v. Some v \<in> set vs) \<and> (\<forall>v. Some v \<in> set vs \<longrightarrow> 0 \<le> v) \<Longrightarrow>
      calculate_average_fcf vs =
        Inr (Some (sum_list (map the (filter (\<lambda>x. x \<noteq> None) vs))
                    / real (length (filter (\<lambda>x. x \<noteq> None) vs))))"
    by (subst calculate_average_fcf_eq) (auto simp: not_less [symmetric])
  moreover have "(\<forall>v. Some v \<notin> set vs) \<Longrightarrow> calculate_average_fcf vs = Inr None"
    by (subst calculate_average_fcf_eq) auto
  ultimately show ?thesis by blast
qed

theorem average_of_present_values_witness:
  "calculate_average_fcf [None, None, None, None, None] = Inr None \<and>
   calculate_average_fcf [Some 100, Some (- 1), None, Some 7, None] = Inr None \<and>
   calculate_average_fcf [Some 100, Some 200, None, None, None] = Inr (Some 150) \<and>
   calculate_average \<lparr>f_fcf_2025 = Some 100, f_fcf_2024 = Some 200, f_fcf_2023 = None,
     f_fcf_2022 = None, f_fcf_2021 = None\<rparr> = Inr (Some 150)"
proof -
  note a = average_of_present_values
  have 1: "calculate_average_fcf [None, None, None, None, None] = Inr None"
    using a [of "[None, None, None, None, None]"] by simp
  have "\<exists>v::real. Some v \<in> set [Some 100, Some (- 1), None, Some 7, None] \<and> v < 0"
    by (intro exI [of _ "- 1"]) simp
  then have 2: "calculate_average_fcf [Some 100, Some (- 1), None, Some 7, None] = Inr None"
    using a [of "[Some 100, Some (- 1), None, Some 7, None]"] by blast
  have "(\<exists>v::real. Some v \<in> set [Some 100, Some 200, None, None, None]) \<and>
    (\<forall>v::real. Some v \<in> set [Some 100, Some 200, None, None, None] \<longrightarrow> 0 \<le> v)"
    by auto
  then have "calculate_average_fcf [Some 100, Some 200, None, None, None] =
    Inr (Some (sum_list (map the (filter (\<lambda>x. x \<noteq> None) [Some 100, Some 200, None, None, None]))
      / real (length (filter (\<lambda>x. x \<noteq> None) [Some 100, Some 200, None, None, None :: real option]))))"
    using a [of "[Some 100, Some 200, None, None, None]"] by blast
  then have 3: "calculate_average_fcf [Some 100, Some 200, None, None, None] = Inr (Some 150)"
    by simp
  have 4: "calculate_average \<lparr>f_fcf_2025 = Some 100, f_fcf_2024 = Some 200, f_fcf_2023 = None,
     f_fcf_2022 = None, f_fcf_2021 = None\<rparr> = Inr (Some 150)"
    using a [of "[]" "\<lparr>f_fcf_2025 = Some 100, f_fcf_2024 = Some 200, f_fcf_2023 = None,
     f_fcf_2022 = None, f_fcf_2021 = None\<rparr>"] 3 by simp
  from 1 2 3 4 show ?thesis by blast
qed

lemma round_half_even_nearest:
  "\<bar>y - of_int (round_half_even y)\<bar> \<le> 1 / 2 \<and>
   (\<bar>y - of_int (round_half_even y)\<bar> = 1 / 2 \<longrightarrow> even (round_half_even y))"
proof -
  define f where "f = \<lfloor>y\<rfloor>"
  define d where "d = y - of_int f"
  have d: "0 \<le> d" "d < 1" unfolding d_def f_def by linarith+
  have y: "y = of_int f + d" unfolding d_def by simp
  consider "d < 1 / 2" | "1 / 2 < d" | "d = 1 / 2" by linarith
  then show ?thesis
  proof cases
    case 1
    then have "round_half_even y = f"
      unfolding round_half_even_def Let_def f_def [symmetric] d_def [symmetric] by simp
    with 1 d y show ?thesis by simp
  next
    case 2
    then have "round_half_even y = f + 1"
      unfolding round_half_even_def Let_def f_def [symmetric] d_def [symmetric] by simp
    with 2 d y show ?thesis by simp
  next
    case 3
    then have "round_half_even y = (if even f then f else f + 1)"
      unfolding round_half_even_def Let_def f_def [symmetric] d_def [symmetric] by simp
    with 3 d y show ?thesis by auto
  qed
qed

subsection \<open>Rounding to a double\<close>

text \<open>
  \<open>float_exponent x\<close> is the binary exponent of a nonzero \<open>x\<close>: the power of two at or
  below \<open>\<bar>x\<bar>\<close>.
\<close>

lemma float_exponent_bounds:
  assumes "x \<noteq> 0"
  shows "2 powi float_exponent x \<le> \<bar>x\<bar> \<and> \<bar>x\<bar> < 2 powi (float_exponent x + 1)"
proof (cases "1 \<le> \<bar>x\<bar>")
  case True
  define n where "n = \<lfloor>\<bar>x\<bar>\<rfloor>"
  from True have n: "0 < n" unfolding n_def by linarith
  have nx: "of_int n \<le> \<bar>x\<bar>" "\<bar>x\<bar> < of_int n + 1" unfolding n_def by linarith+
  from bitlen_bounds [OF n] have b: "2 ^ nat (bitlen n - 1) \<le> n" "n < 2 ^ nat (bitlen n)"
    by simp_all
  from n have b1: "1 \<le> bitlen n" by (auto simp: bitlen_alt_def)
  have fe: "float_exponent x = bitlen n - 1"
    using True by (simp add: float_exponent_def n_def)
  have "(2::real) powi (bitlen n - 1) = 2 ^ nat (bitlen n - 1)"
    using b1 by (simp add: power_int_def)
  also have "\<dots> = of_int (2 ^ nat (bitlen n - 1))" by simp
  also have "\<dots> \<le> of_int n" using b(1) by (simp only: of_int_le_iff)
  finally have lo: "2 powi (bitlen n - 1) \<le> \<bar>x\<bar>" using nx(1) by linarith
  from b(2) have "n + 1 \<le> 2 ^ nat (bitlen n)" by simp
  then have "(of_int (n + 1) :: real) \<le> of_int (2 ^ nat (bitlen n))"
    by (simp only: of_int_le_iff)
  then have "of_int n + 1 \<le> (2::real) ^ nat (bitlen n)" by simp
  moreover have "(2::real) powi (bitlen n) = 2 ^ nat (bitlen n)"
    using b1 by (simp add: power_int_def)
  ultimately have hi: "\<bar>x\<bar> < 2 powi (bitlen n)" using nx(2) by linarith
  from lo hi show ?thesis unfolding fe by simp
next
  case False
  define y where "y = 1 / \<bar>x\<bar>"
  define c where "c = \<lceil>y\<rceil>"
  from False assms have x: "0 < \<bar>x\<bar>" "\<bar>x\<bar> < 1" by simp_all
  then have y1: "1 < y" unfolding y_def by simp
  have cy: "y \<le> of_int c" "of_int c - 1 < y" unfolding c_def by linarith+
  from y1 cy(1) have "(1::real) < of_int c" by linarith
  then have c1: "0 < c - 1" by simp
  define b where "b = bitlen (c - 1)"
  from bitlen_bounds [OF c1] have bb: "2 ^ nat (b - 1) \<le> c - 1" "c - 1 < 2 ^ nat b"
    unfolding b_def by simp_all
  from c1 have b1: "1 \<le> b" unfolding b_def by (auto simp: bitlen_alt_def)
  have fe: "float_exponent x = - b"
    using False by (simp add: float_exponent_def b_def c_def y_def)
  have xy: "\<bar>x\<bar> = 1 / y" unfolding y_def by simp
  from bb(2) have "c \<le> 2 ^ nat b" by simp
  then have "(of_int c :: real) \<le> of_int (2 ^ nat b)" by (simp only: of_int_le_iff)
  then have "(of_int c :: real) \<le> 2 ^ nat b" by simp
  with cy(1) have "y \<le> 2 ^ nat b" by linarith
  then have "1 / (2::real) ^ nat b \<le> 1 / y" using y1 by (simp add: frac_le)
  moreover have "(2::real) powi (- b) = 1 / 2 ^ nat b"
    using b1 by (simp add: power_int_def field_simps)
  ultimately have lo: "2 powi (- b) \<le> \<bar>x\<bar>" unfolding xy by simp
  from bb(1) have "(of_int (2 ^ nat (b - 1)) :: real) \<le> of_int (c - 1)"
    by (simp only: of_int_le_iff)
  then have "(2::real) ^ nat (b - 1) < y" using cy(2) by simp
  then have "1 / y < 1 / (2::real) ^ nat (b - 1)" by (simp add: frac_less2)
  moreover have "(2::real) powi (- b + 1) = 1 / 2 ^ nat (b - 1)"
  proof -
    have "- b + 1 = - (b - 1)" by simp
    then have "(2::real) powi (- b + 1) = inverse (2 powi (b - 1))"
      by (simp only: power_int_minus)
    also have "(2::real) powi (b - 1) = 2 ^ nat (b - 1)"
      using b1 by (simp add: power_int_def)
    finally show ?thesis by (simp add: field_simps)
  qed
  ultimately have hi: "\<bar>x\<bar> < 2 powi (- b + 1)" unfolding xy by simp
  from lo hi show ?thesis unfolding fe by simp
qed

text \<open>
  \<open>to_double x\<close> is a double nearest to \<open>x\<close>: an integer of at most 53 bits times the
  unit in the last place of \<open>x\<close>, at most half a unit from \<open>x\<close>, the even one of the two
  when \<open>x\<close> lies halfway.
\<close>

lemma to_double_nearest:
  "\<exists>m::int. to_double x = of_int m * 2 powi ulp_exponent x \<and> \<bar>m\<bar> \<le> 2 ^ 53 \<and>
    \<bar>to_double x - x\<bar> \<le> 2 powi ulp_exponent x / 2 \<and>
    (\<bar>to_double x - x\<bar> = 2 powi ulp_exponent x / 2 \<longrightarrow> even m)"
proof (cases "x = 0")
  case True
  have "to_double x = of_int 0 * 2 powi ulp_exponent x \<and> \<bar>0::int\<bar> \<le> 2 ^ 53 \<and>
    \<bar>to_double x - x\<bar> \<le> 2 powi ulp_exponent x / 2 \<and>
    (\<bar>to_double x - x\<bar> = 2 powi ulp_exponent x / 2 \<longrightarrow> even (0::int))"
    using True by (simp add: to_double_def)
  then show ?thesis by (rule exI)
next
  case False
  define e where "e = ulp_exponent x"
  define u where "u = (2::real) powi e"
  define s where "s = x * 2 powi (- e)"
  define m where "m = round_half_even s"
  have u: "0 < u" unfolding u_def by simp
  have inv: "(2::real) powi (- e) = 1 / u"
    unfolding u_def by (simp add: power_int_minus field_simps)
  have sx: "s * u = x" unfolding s_def inv using u by simp
  have td: "to_double x = of_int m * u"
    using False by (simp add: to_double_def m_def s_def u_def e_def)
  from round_half_even_nearest [of s]
  have n: "\<bar>s - of_int m\<bar> \<le> 1 / 2" "\<bar>s - of_int m\<bar> = 1 / 2 \<longrightarrow> even m"
    unfolding m_def by simp_all
  have d: "\<bar>to_double x - x\<bar> = \<bar>s - of_int m\<bar> * u"
  proof -
    have "to_double x - x = of_int m * u - s * u" using td sx by simp
    also have "\<dots> = (of_int m - s) * u" by (simp add: algebra_simps)
    finally show ?thesis using u by (simp add: abs_mult abs_minus_commute)
  qed
  have near: "\<bar>to_double x - x\<bar> \<le> u / 2"
    unfolding d using n(1) u by (simp add: field_simps)
  have tie: "\<bar>to_double x - x\<bar> = u / 2 \<longrightarrow> even m"
    unfolding d using n(2) u by (simp add: field_simps)
  have "\<bar>s\<bar> \<le> 2 ^ 53"
  proof -
    from float_exponent_bounds [OF False] have hi: "\<bar>x\<bar> < 2 powi (float_exponent x + 1)" by simp
    have ge: "float_exponent x - 52 \<le> e" unfolding e_def ulp_exponent_def by simp
    have "\<bar>s\<bar> = \<bar>x\<bar> * 2 powi (- e)" unfolding s_def by (simp add: abs_mult)
    also have "\<dots> \<le> 2 powi (float_exponent x + 1) * 2 powi (- e)"
      using hi by (simp add: mult_right_mono)
    also have "\<dots> = 2 powi (float_exponent x + 1 - e)"
      by (simp add: power_int_add [symmetric])
    also have "\<dots> \<le> 2 powi 53"
      using ge by (intro power_int_increasing) simp_all
    finally show ?thesis by simp
  qed
  then have s53: "- 9007199254740992 \<le> s" "s \<le> 9007199254740992"
    by (simp_all add: abs_le_iff)
  have fm: "\<lfloor>s\<rfloor> \<le> m" "m \<le> \<lfloor>s\<rfloor> + 1"
    unfolding m_def round_half_even_def Let_def by simp_all
  have "(- 9007199254740992 :: int) \<le> \<lfloor>s\<rfloor>"
    using s53(1) by (simp add: le_floor_iff)
  with fm(1) have mlo: "- 9007199254740992 \<le> m" by linarith
  have mhi: "m \<le> 9007199254740992"
  proof (cases "s = 9007199254740992")
    case True
    then show ?thesis unfolding m_def round_half_even_def Let_def by simp
  next
    case False
    with s53(2) have "s < 9007199254740992" by simp
    then have "\<lfloor>s\<rfloor> < (9007199254740992 :: int)" by (simp add: floor_less_iff)
    with fm(2) show ?thesis by linarith
  qed
  from mlo mhi have m53: "\<bar>m\<bar> \<le> 2 ^ 53" by simp
  from td m53 near tie show ?thesis unfolding u_def e_def by blast
qed

text \<open>
  A dyadic fraction is its own double; the double of \<open>0.0025\<close> lies above it, the double
  of \<open>0.0035\<close> as well.
\<close>

lemma to_double_examples:
  "to_double (1 / 16) = 1 / 16"
  "to_double (25 / 10000) = 5764607523034235 / 2 ^ 61"
  "25 / 10000 < to_double (25 / 10000)"
  "35 / 10000 < to_double (35 / 10000)"
  by code_simp+

subsection \<open>The yield\<close>

lemma py_round_3_nearest:
  "\<exists>k::int. py_round x 3 = to_double (of_int k / 1000) \<and> \<bar>x - of_int k / 1000\<bar> \<le> 1 / 2000 \<and>
     (\<bar>x - of_int k / 1000\<bar> = 1 / 2000 \<longrightarrow> even k)"
proof -
  let ?k = "round_half_even (x * 1000)"
  have e: "\<bar>x - of_int ?k / 1000\<bar> = \<bar>x * 1000 - of_int ?k\<bar> / 1000"
    by (simp add: abs_if field_simps)
  have "py_round x 3 = to_double (of_int ?k / 1000)" by (simp add: py_round_def)
  moreover have "\<bar>x - of_int ?k / 1000\<bar> \<le> 1 / 2000"
    using round_half_even_nearest [of "x * 1000"] unfolding e by simp
  moreover have "\<bar>x - of_int ?k / 1000\<bar> = 1 / 2000 \<longrightarrow> even ?k"
    using round_half_even_nearest [of "x * 1000"] unfolding e by simp
  ultimately show ?thesis by blast
qed

lemma yield_values:
  "py_round (to_double (3 / 200)) 3 = to_double (3 / 200)"
  "py_round (to_double (3 / 100)) 3 = to_double (3 / 100)"
  "py_round (to_double (3 / 40)) 3 = to_double (3 / 40)"
  "py_round (to_double (1 / 400)) 3 = to_double (3 / 1000)"
  "py_round (to_double (7 / 2000)) 3 = to_double (1 / 250)"
  "py_round (to_double (1 / 16)) 3 = to_double (31 / 500)"
  "py_round (to_double (3 / 16)) 3 = to_double (47 / 250)"
  by code_simp+

text \<open>
  Claim C3, as stated, fails. The quotient of 25 by 10000 is \<open>0.0025\<close>, halfway between
  \<open>0.002\<close> and \<open>0.003\<close>, and rounding it half to even gives \<open>0.002\<close>. The code rounds the
  double of the quotient, which lies above \<open>0.0025\<close>, and returns the double of \<open>0.003\<close>.
\<close>

theorem fcf_yield_counterexample:
  "round_half_even (25 / 10000 * 1000) = 2 \<and>
   calculate_fcf_yield (Some 25) (Some 10000) = Inr (Some (to_double (3 / 1000))) \<and>
   calculate_fcf_yield (Some 25) (Some 10000) \<noteq> Inr (Some (to_double (2 / 1000))) \<and>
   calculate_fcf_yield (Some 25) (Some 10000) \<noteq> Inr (Some (2 / 1000)) \<and>
   29 / 10000 < to_double (3 / 1000)"
  by code_simp

text \<open>
  Claim C3, amended. The yield never raises; it is \<open>None\<close> exactly when the average is
  \<open>None\<close>, the enterprise value is \<open>None\<close>, or the enterprise value is at most zero.
  Otherwise the quotient is first rounded to a double \<open>q\<close> (a nearest one, the even one
  of two) and the yield is the double of \<open>k / 1000\<close>, where \<open>k / 1000\<close> is at distance at
  most \<open>1 / 2000\<close> from \<open>q\<close>, with \<open>k\<close> even when \<open>q\<close> itself lies halfway. The arguments
  stand for finite doubles, and a quotient beyond the range of the doubles is not
  modelled.
\<close>

theorem fcf_yield_spec:
  "(\<exists>r. calculate_fcf_yield a e = Inr r) \<and>
   (calculate_fcf_yield a e = Inr None \<longleftrightarrow>
      a = None \<or> e = None \<or> (\<exists>ev. e = Some ev \<and> ev \<le> 0)) \<and>
   (\<forall>av ev. a = Some av \<and> e = Some ev \<and> 0 < ev \<longrightarrow>
      calculate_fcf_yield a e = Inr (Some (py_round (to_double (av / ev)) 3)) \<and>
      (\<exists>m::int. to_double (av / ev) = of_int m * 2 powi ulp_exponent (av / ev) \<and>
         \<bar>m\<bar> \<le> 2 ^ 53 \<and>
         \<bar>to_double (av / ev) - av / ev\<bar> \<le> 2 powi ulp_exponent (av / ev) / 2 \<and>
         (\<bar>to_double (av / ev) - av / ev\<bar> = 2 powi ulp_exponent (av / ev) / 2 \<longrightarrow> even m)) \<and>
      (\<exists>k::int. py_round (to_double (av / ev)) 3 = to_double (of_int k / 1000) \<and>
         \<bar>to_double (av / ev) - of_int k / 1000\<bar> \<le> 1 / 2000 \<and>
         (\<bar>to_double (av / ev) - of_int k / 1000\<bar> = 1 / 2000 \<longrightarrow> even k)))"
proof -
  have 1: "\<exists>r. calculate_fcf_yield a e = Inr r"
    by (cases a; cases e) (auto simp: calculate_fcf_yield_def float_truediv_def)
  have 2: "calculate_fcf_yield a e = Inr None \<longleftrightarrow>
      a = None \<or> e = None \<or> (\<exists>ev. e = Some ev \<and> ev \<le> 0)"
    by (cases a; cases e) (auto simp: calculate_fcf_yield_def float_truediv_def)
  have 3: "calculate_fcf_yield a e = Inr (Some (py_round (to_double (av / ev)) 3))"
    if "a = Some av \<and> e = Some ev \<and> 0 < ev" for av ev
    using that by (simp add: calculate_fcf_yield_def float_truediv_def)
  from 1 2 3 to_double_nearest py_round_3_nearest show ?thesis by blast
qed

theorem fcf_yield_spec_witness:
  "calculate_fcf_yield (Some 150) (Some 10000) = Inr (Some (to_double (15 / 1000))) \<and>
   calculate_fcf_yield (Some 25) (Some 10000) = Inr (Some (to_double (3 / 1000))) \<and>
   calculate_fcf_yield (Some 35) (Some 10000) = Inr (Some (to_double (4 / 1000))) \<and>
   calculate_fcf_yield (Some 1) (Some 16) = Inr (Some (to_double (62 / 1000))) \<and>
   calculate_fcf_yield (Some 3) (Some 16) = Inr (Some (to_double (188 / 1000))) \<and>
   calculate_fcf_yield (Some 150) (Some 0) = Inr None \<and>
   calculate_fcf_yield None (Some 10000) = Inr None \<and>
   calculate_fcf_yield (Some 150) None = Inr None"
proof -
  note r = yield_values
  note y = fcf_yield_spec
  have "calculate_fcf_yield (Some 150) (Some 10000) = Inr (Some (to_double (15 / 1000)))"
    using y [of "Some 150" "Some 10000"] r by simp
  moreover have "calculate_fcf_yield (Some 25) (Some 10000) = Inr (Some (to_double (3 / 1000)))"
    using y [of "Some 25" "Some 10000"] r by simp
  moreover have "calculate_fcf_yield (Some 35) (Some 10000) = Inr (Some (to_double (4 / 1000)))"
    using y [of "Some 35" "Some 10000"] r by simp
  moreover have "calculate_fcf_yield (Some 1) (Some 16) = Inr (Some (to_double (62 / 1000)))"
    using y [of "Some 1" "Some 16"] r by simp
  moreover have "calculate_fcf_yield (Some 3) (Some 16) = Inr (Some (to_double (188 / 1000)))"
    using y [of "Some 3" "Some 16"] r by simp
  moreover have "calculate_fcf_yield (Some 150) (Some 0) = Inr None"
    using y [of "Some 150" "Some 0"] by simp
  moreover have "calculate_fcf_yield None (Some 10000) = Inr None"
    using y [of None "Some 10000"] by simp
  moreover have "calculate_fcf_yield (Some 150) None = Inr None"
    using y [of "Some 150" None] by simp
  ultimately show ?thesis by blast
qed

section \<open>Properties of the store operations\<close>

lemma calculate_average_fcf_total: "\<exists>a. calculate_average_fcf vs = Inr a"
  by (simp add: calculate_average_fcf_eq)

lemma calculate_fcf_yield_total: "\<exists>y. calculate_fcf_yield a e = Inr y"
  by (cases a; cases e) (auto simp: calculate_fcf_yield_def float_truediv_def)

lemma yield_examples:
  "calculate_fcf_yield (Some 150) (Some 10000) = Inr (Some (to_double (3 / 200)))"
  "calculate_fcf_yield (Some 300) (Some 10000) = Inr (Some (to_double (3 / 100)))"
  "calculate_fcf_yield (Some 150) (Some 2000) = Inr (Some (to_double (3 / 40)))"
  by (simp_all add: calculate_fcf_yield_def float_truediv_def yield_values)

lemma find_SomeD: "find P xs = Some x \<Longrightarrow> P x \<and> x \<in> set xs"
  by (induction xs) (auto split: if_splits)

lemma find_distinct_key:
  "distinct (map ticker db) \<Longrightarrow> find (\<lambda>r. ticker r = k) db = Some record \<Longrightarrow>
   r \<in> set db \<Longrightarrow> ticker r = k \<Longrightarrow> r = record"
proof (induction db)
  case Nil
  then show ?case by simp
next
  case (Cons x db)
  then show ?case by (auto split: if_splits dest: find_SomeD)
qed

lemma fcf_years_set_fcf:
  "year \<in> set [2021, 2022, 2023, 2024, 2025] \<Longrightarrow>
   map snd (AList.update year v
     [(2025, fcf_2025 r), (2024, fcf_2024 r), (2023, fcf_2023 r), (2022, fcf_2022 r),
      (2021, fcf_2021 r)]) = fcf_years (set_fcf year v r)"
  by (auto simp: fcf_years_def set_fcf_def)

lemma find_sql_update:
  "find (\<lambda>r. ticker r = k) db = Some record \<Longrightarrow> ticker (f record) = k \<Longrightarrow>
   find (\<lambda>r. ticker r = k) (sql_update k f db) = Some (f record)"
  by (induction db) (auto simp: sql_update_def split: if_splits)

lemma find_sql_update_other:
  "k' \<noteq> k \<Longrightarrow> (\<And>r. ticker (f r) = ticker r) \<Longrightarrow>
   find (\<lambda>r. ticker r = k') (sql_update k f db) = find (\<lambda>r. ticker r = k') db"
  by (induction db) (auto simp: sql_update_def split: if_splits)

lemma ticker_set_fcf [simp]: "ticker (set_fcf year v r) = ticker r"
  and company_name_set_fcf [simp]: "company_name (set_fcf year v r) = company_name r"
  and enterprise_value_set_fcf [simp]: "enterprise_value (set_fcf year v r) = enterprise_value r"
  by (simp_all add: set_fcf_def)

lemma fcf_of_set_fcf:
  "year \<in> set [2021, 2022, 2023, 2024, 2025] \<Longrightarrow>
   fcf_of y (set_fcf year v r) = (if y = year then v else fcf_of y r)"
  by (auto simp: fcf_of_def set_fcf_def)

lemma update_fcf_found:
  assumes y: "year \<in> set [2021, 2022, 2023, 2024, 2025]" and g: "get db t = Some record"
  obtains a yl where
    "calculate_average_fcf (fcf_years (set_fcf year v record)) = Inr a"
    "calculate_fcf_yield a (enterprise_value record) = Inr yl"
    "update_fcf now db t year v =
       (Inr True, sql_update (upper t)
          (\<lambda>r. (set_fcf year v r)\<lparr>average_fcf := a, fcf_yield := yl, last_updated := now\<rparr>) db)"
proof -
  obtain a where a: "calculate_average_fcf (fcf_years (set_fcf year v record)) = Inr a"
    using calculate_average_fcf_total by blast
  obtain yl where yl: "calculate_fcf_yield a (enterprise_value record) = Inr yl"
    using calculate_fcf_yield_total by blast
  have "update_fcf now db t year v =
       (Inr True, sql_update (upper t)
          (\<lambda>r. (set_fcf year v r)\<lparr>average_fcf := a, fcf_yield := yl, last_updated := now\<rparr>) db)"
    using y g a yl unfolding update_fcf_def Let_def fcf_years_set_fcf [OF y]
    by simp
  with a yl that show thesis by blast
qed

text \<open>
  Claim C4. \<^verbatim>\<open>update_fcf\<close> raises exactly when the year is outside 2021..2025, and then
  it raises \<^verbatim>\<open>ValueError\<close>; for a year in range it returns \<open>False\<close> exactly when \<^verbatim>\<open>get\<close>
  finds no record for the ticker; whenever it does not return \<open>True\<close> the table is
  unchanged. Otherwise it returns \<open>True\<close>, and the record read back has the new value in
  that year, the other years, the enterprise value, the ticker and the name unchanged, an
  average that is the recomputation from its own five years, a yield that is the
  recomputation from that average and the existing enterprise value, and the new
  timestamp; the rows under every other key are unchanged.
\<close>

theorem update_fcf_spec:
  "(\<forall>e. fst (update_fcf now db t year v) = Inl e \<longleftrightarrow>
        e = ValueError \<and> year \<notin> {2021, 2022, 2023, 2024, 2025}) \<and>
   (year \<in> {2021, 2022, 2023, 2024, 2025} \<longrightarrow>
      (fst (update_fcf now db t year v) = Inr False \<longleftrightarrow> get db t = None)) \<and>
   (fst (update_fcf now db t year v) \<noteq> Inr True \<longrightarrow> snd (update_fcf now db t year v) = db) \<and>
   (\<forall>r. year \<in> {2021, 2022, 2023, 2024, 2025} \<and> get db t = Some r \<longrightarrow>
      fst (update_fcf now db t year v) = Inr True \<and>
      (\<exists>r'. get (snd (update_fcf now db t year v)) t = Some r' \<and>
         fcf_of year r' = v \<and>
         (\<forall>y. y \<noteq> year \<longrightarrow> fcf_of y r' = fcf_of y r) \<and>
         enterprise_value r' = enterprise_value r \<and>
         ticker r' = ticker r \<and> company_name r' = company_name r \<and>
         calculate_average_fcf (fcf_years r') = Inr (average_fcf r') \<and>
         calculate_fcf_yield (average_fcf r') (enterprise_value r) = Inr (fcf_yield r') \<and>
         last_updated r' = now) \<and>
      (\<forall>k. k \<noteq> upper t \<longrightarrow>
         find (\<lambda>x. ticker x = k) (snd (update_fcf now db t year v)) =
         find (\<lambda>x. ticker x = k) db))"
proof (cases "year \<in> set [2021, 2022, 2023, 2024, 2025]")
  case False
  then have "update_fcf now db t year v = (Inl ValueError, db)"
    by (simp add: update_fcf_def)
  with False show ?thesis by auto
next
  case y: True
  show ?thesis
  proof (cases "get db t")
    case None
    with y have "update_fcf now db t year v = (Inr False, db)"
      by (simp add: update_fcf_def)
    with y None show ?thesis by auto
  next
    case (Some rcd)
    let ?k = "upper t"
    from update_fcf_found [OF y Some, of v now] obtain a yl where
      a: "calculate_average_fcf (fcf_years (set_fcf year v rcd)) = Inr a" and
      yl: "calculate_fcf_yield a (enterprise_value rcd) = Inr yl" and
      u: "update_fcf now db t year v =
       (Inr True, sql_update ?k
          (\<lambda>r. (set_fcf year v r)\<lparr>average_fcf := a, fcf_yield := yl, last_updated := now\<rparr>) db)"
      by blast
    let ?f = "\<lambda>r. (set_fcf year v r)\<lparr>average_fcf := a, fcf_yield := yl, last_updated := now\<rparr>"
    have k: "ticker rcd = ?k"
      using Some unfolding get_def by (auto dest: find_SomeD)
    have g': "get (snd (update_fcf now db t year v)) t = Some (?f rcd)"
      using Some k unfolding u get_def snd_conv
      by (intro find_sql_update) simp_all
    have years: "fcf_years (?f rcd) = fcf_years (set_fcf year v rcd)"
      by (simp add: fcf_years_def)
    have fo: "fcf_of y (?f rcd) = fcf_of y (set_fcf year v rcd)" for y
      by (simp add: fcf_of_def)
    have other: "find (\<lambda>x. ticker x = k) (snd (update_fcf now db t year v)) =
         find (\<lambda>x. ticker x = k) db" if "k \<noteq> ?k" for k
      using that unfolding u snd_conv by (intro find_sql_update_other) simp_all
    have r': "\<exists>r'. get (snd (update_fcf now db t year v)) t = Some r' \<and>
         fcf_of year r' = v \<and>
         (\<forall>y. y \<noteq> year \<longrightarrow> fcf_of y r' = fcf_of y rcd) \<and>
         enterprise_value r' = enterprise_value rcd \<and>
         ticker r' = ticker rcd \<and> company_name r' = company_name rcd \<and>
         calculate_average_fcf (fcf_years r') = Inr (average_fcf r') \<and>
         calculate_fcf_yield (average_fcf r') (enterprise_value rcd) = Inr (fcf_yield r') \<and>
         last_updated r' = now"
      by (rule exI [of _ "?f rcd"])
        (simp add: g' years a yl fo fcf_of_set_fcf [OF y])
    from y Some u r' other show ?thesis by auto
  qed
qed

lemma upper_aapl: "upper ''aapl'' = ''AAPL''" "upper ''AAPL'' = ''AAPL''" "upper ''msft'' = ''MSFT''"
  by code_simp+

lemma get_row_aapl: "get [row_aapl] ''aapl'' = Some row_aapl"
  by (simp add: get_def upper_aapl row_aapl_def)

theorem update_fcf_spec_witness:
  "(2023::int) \<in> {2021, 2022, 2023, 2024, 2025} \<and> get [row_aapl] ''aapl'' = Some row_aapl \<and>
   fst (update_fcf ''2026-03-01T22:30:00'' [row_aapl] ''aapl'' 2023 (Some 600)) = Inr True \<and>
   get (snd (update_fcf ''2026-03-01T22:30:00'' [row_aapl] ''aapl'' 2023 (Some 600))) ''aapl'' =
     Some (row_aapl\<lparr>fcf_2023 := Some 600, average_fcf := Some 300, fcf_yield := Some (to_double (3 / 100)),
       last_updated := ''2026-03-01T22:30:00''\<rparr>)"
proof -
  let ?u = "update_fcf ''2026-03-01T22:30:00'' [row_aapl] ''aapl'' 2023 (Some 600)"
  have y: "(2023::int) \<in> {2021, 2022, 2023, 2024, 2025}" by simp
  from update_fcf_spec [of "''2026-03-01T22:30:00''" "[row_aapl]" "''aapl''" 2023 "Some 600"]
  have "\<forall>r. (2023::int) \<in> {2021, 2022, 2023, 2024, 2025} \<and> get [row_aapl] ''aapl'' = Some r \<longrightarrow>
      fst ?u = Inr True \<and>
      (\<exists>r'. get (snd ?u) ''aapl'' = Some r' \<and>
         fcf_of 2023 r' = Some 600 \<and>
         (\<forall>y. y \<noteq> 2023 \<longrightarrow> fcf_of y r' = fcf_of y r) \<and>
         enterprise_value r' = enterprise_value r \<and>
         ticker r' = ticker r \<and> company_name r' = company_name r \<and>
         calculate_average_fcf (fcf_years r') = Inr (average_fcf r') \<and>
         calculate_fcf_yield (average_fcf r') (enterprise_value r) = Inr (fcf_yield r') \<and>
         last_updated r' = ''2026-03-01T22:30:00'')"
    by blast
  with y get_row_aapl obtain r' where t: "fst ?u = Inr True" and
    g: "get (snd ?u) ''aapl'' = Some r'" and
    v: "fcf_of 2023 r' = Some 600" and
    o: "\<forall>y. y \<noteq> 2023 \<longrightarrow> fcf_of y r' = fcf_of y row_aapl" and
    e: "enterprise_value r' = enterprise_value row_aapl" and
    k: "ticker r' = ticker row_aapl" and n: "company_name r' = company_name row_aapl" and
    a: "calculate_average_fcf (fcf_years r') = Inr (average_fcf r')" and
    yl: "calculate_fcf_yield (average_fcf r') (enterprise_value row_aapl) = Inr (fcf_yield r')" and
    l: "last_updated r' = ''2026-03-01T22:30:00''"
    by blast
  from o have o': "fcf_of 2025 r' = fcf_of 2025 row_aapl" "fcf_of 2024 r' = fcf_of 2024 row_aapl"
    "fcf_of 2022 r' = fcf_of 2022 row_aapl" "fcf_of 2021 r' = fcf_of 2021 row_aapl"
    by simp_all
  from v o' have f: "fcf_2025 r' = Some 100" "fcf_2024 r' = Some 200" "fcf_2023 r' = Some 600"
    "fcf_2022 r' = None" "fcf_2021 r' = None"
    by (simp_all add: fcf_of_def row_aapl_def)
  have "calculate_average_fcf (fcf_years r') = Inr (Some 300)"
    by (simp add: fcf_years_def f calculate_average_fcf_def py_truediv_def)
  with a have av: "average_fcf r' = Some 300" by simp
  have "calculate_fcf_yield (Some 300) (enterprise_value row_aapl) =
      Inr (Some (to_double (3 / 100)))"
    by (simp add: yield_examples row_aapl_def)
  with yl av have yv: "fcf_yield r' = Some (to_double (3 / 100))" by simp
  have "r' = row_aapl\<lparr>fcf_2023 := Some 600, average_fcf := Some 300, fcf_yield := Some (to_double (3 / 100)),
       last_updated := ''2026-03-01T22:30:00''\<rparr>"
    using f av yv e k n l by (cases r') (simp add: row_aapl_def)
  with y get_row_aapl t g show ?thesis by simp
qed

text \<open>
  Claim C10. The year check comes first: for a year outside 2021..2025 \<^verbatim>\<open>update_fcf\<close>
  raises \<^verbatim>\<open>ValueError\<close> and leaves the table as it was, for every table and ticker, so
  also when the ticker has no record (where a year in range would have returned
  \<open>False\<close>).
\<close>

theorem update_fcf_invalid_year_first:
  "year \<notin> {2021, 2022, 2023, 2024, 2025} \<longrightarrow>
     update_fcf now db t year v = (Inl ValueError, db)"
  by (simp add: update_fcf_def)

theorem update_fcf_invalid_year_first_witness:
  "(2020::int) \<notin> {2021, 2022, 2023, 2024, 2025} \<and> get [] ''zzz'' = None \<and>
   update_fcf ''2026-03-01T22:30:00'' [] ''zzz'' 2020 (Some 1) = (Inl ValueError, []) \<and>
   update_fcf ''2026-03-01T22:30:00'' [row_aapl] ''aapl'' 2026 None = (Inl ValueError, [row_aapl])"
proof -
  have 1: "(2020::int) \<notin> {2021, 2022, 2023, 2024, 2025}" by simp
  have 2: "(2026::int) \<notin> {2021, 2022, 2023, 2024, 2025}" by simp
  from 1 update_fcf_invalid_year_first [of 2020 "''2026-03-01T22:30:00''" "[]" "''zzz''" "Some 1"]
  have 3: "update_fcf ''2026-03-01T22:30:00'' [] ''zzz'' 2020 (Some 1) = (Inl ValueError, [])"
    by blast
  from 2 update_fcf_invalid_year_first [of 2026 "''2026-03-01T22:30:00''" "[row_aapl]" "''aapl''" None]
  have 4: "update_fcf ''2026-03-01T22:30:00'' [row_aapl] ''aapl'' 2026 None = (Inl ValueError, [row_aapl])"
    by blast
  have "get [] ''zzz'' = None" by (simp add: get_def)
  with 1 3 4 show ?thesis by blast
qed

text \<open>
  Claim C5. For a ticker without a record \<^verbatim>\<open>update_enterprise_value\<close> returns \<open>False\<close>
  and changes nothing. For a ticker with the record \<open>r\<close> it returns \<open>True\<close>, and the
  record read back is \<open>r\<close> with the new enterprise value, the yield recomputed from the
  average stored in \<open>r\<close> and the new enterprise value, and the new timestamp: the
  average, the five years, the ticker and the name are those of \<open>r\<close>. The rows under
  every other key are unchanged.
\<close>

theorem update_enterprise_value_spec:
  "(get db t = None \<longrightarrow> update_enterprise_value now db t v = (Inr False, db)) \<and>
   (\<forall>r. get db t = Some r \<longrightarrow>
      fst (update_enterprise_value now db t v) = Inr True \<and>
      (\<exists>y. calculate_fcf_yield (average_fcf r) v = Inr y \<and>
         get (snd (update_enterprise_value now db t v)) t =
           Some (r\<lparr>enterprise_value := v, fcf_yield := y, last_updated := now\<rparr>)) \<and>
      (\<forall>k. k \<noteq> upper t \<longrightarrow>
         find (\<lambda>x. ticker x = k) (snd (update_enterprise_value now db t v)) =
         find (\<lambda>x. ticker x = k) db))"
proof (cases "get db t")
  case None
  then show ?thesis by (simp add: update_enterprise_value_def)
next
  case (Some rcd)
  obtain y where y: "calculate_fcf_yield (average_fcf rcd) v = Inr y"
    using calculate_fcf_yield_total by blast
  let ?f = "\<lambda>r. r\<lparr>enterprise_value := v, fcf_yield := y, last_updated := now\<rparr>"
  have u: "update_enterprise_value now db t v = (Inr True, sql_update (upper t) ?f db)"
    using Some y by (simp add: update_enterprise_value_def)
  have k: "ticker rcd = upper t"
    using Some unfolding get_def by (auto dest: find_SomeD)
  have g': "get (snd (update_enterprise_value now db t v)) t = Some (?f rcd)"
    using Some k unfolding u get_def snd_conv
    by (intro find_sql_update) simp_all
  have other: "find (\<lambda>x. ticker x = k) (snd (update_enterprise_value now db t v)) =
         find (\<lambda>x. ticker x = k) db" if "k \<noteq> upper t" for k
    using that unfolding u snd_conv by (intro find_sql_update_other) simp_all
  from Some u y g' other show ?thesis by auto
qed

theorem update_enterprise_value_spec_witness:
  "get [row_aapl] ''aapl'' = Some row_aapl \<and> get [] ''aapl'' = None \<and>
   update_enterprise_value ''2026-03-01T22:00:00'' [] ''aapl'' (Some 1) = (Inr False, []) \<and>
   fst (update_enterprise_value ''2026-03-01T22:00:00'' [row_aapl] ''aapl'' (Some 2000)) = Inr True \<and>
   get (snd (update_enterprise_value ''2026-03-01T22:00:00'' [row_aapl] ''aapl'' (Some 2000))) ''aapl'' =
     Some (row_aapl\<lparr>enterprise_value := Some 2000, fcf_yield := Some (to_double (75 / 1000)),
       last_updated := ''2026-03-01T22:00:00''\<rparr>)"
proof -
  note s = update_enterprise_value_spec
  have n: "get [] ''aapl'' = None" by (simp add: get_def)
  with s [of "[]" "''aapl''" "''2026-03-01T22:00:00''" "Some 1"]
  have 1: "update_enterprise_value ''2026-03-01T22:00:00'' [] ''aapl'' (Some 1) = (Inr False, [])"
    by blast
  let ?u = "update_enterprise_value ''2026-03-01T22:00:00'' [row_aapl] ''aapl'' (Some 2000)"
  from s [of "[row_aapl]" "''aapl''" "''2026-03-01T22:00:00''" "Some 2000"] get_row_aapl
  obtain y where t: "fst ?u = Inr True" and
    y: "calculate_fcf_yield (average_fcf row_aapl) (Some 2000) = Inr y" and
    g: "get (snd ?u) ''aapl'' =
      Some (row_aapl\<lparr>enterprise_value := Some 2000, fcf_yield := y,
        last_updated := ''2026-03-01T22:00:00''\<rparr>)"
    by blast
  have "calculate_fcf_yield (average_fcf row_aapl) (Some 2000) =
      Inr (Some (to_double (75 / 1000)))"
    by (simp add: yield_examples row_aapl_def)
  with y have "y = Some (to_double (75 / 1000))" by simp
  with get_row_aapl n 1 t g show ?thesis by simp
qed


lemma upsert_cases:
  obtains (raised) "d_ticker data = None" "upsert now db data name = (Inl KeyError, db)"
  | (written) t a y where "d_ticker data = Some t"
      "calculate_average_fcf
         [d_fcf_2025 data, d_fcf_2024 data, d_fcf_2023 data, d_fcf_2022 data, d_fcf_2021 data] = Inr a"
      "calculate_fcf_yield a (d_enterprise_value data) = Inr y"
      "upsert now db data name =
         (Inr (), insert_or_replace
            \<lparr>ticker = t, company_name = name, enterprise_value = d_enterprise_value data,
             fcf_2025 = d_fcf_2025 data, fcf_2024 = d_fcf_2024 data,
             fcf_2023 = d_fcf_2023 data, fcf_2022 = d_fcf_2022 data,
             fcf_2021 = d_fcf_2021 data, average_fcf = a,
             fcf_yield = y, last_updated = now\<rparr> db)"
proof -
  obtain a where a: "calculate_average_fcf
         [d_fcf_2025 data, d_fcf_2024 data, d_fcf_2023 data, d_fcf_2022 data, d_fcf_2021 data] = Inr a"
    using calculate_average_fcf_total by blast
  obtain y where y: "calculate_fcf_yield a (d_enterprise_value data) = Inr y"
    using calculate_fcf_yield_total by blast
  show thesis
  proof (cases "d_ticker data")
    case None
    with a y have "upsert now db data name = (Inl KeyError, db)"
      by (simp add: upsert_def)
    with None raised show thesis by blast
  next
    case (Some t)
    with a y have "upsert now db data name =
         (Inr (), insert_or_replace
            \<lparr>ticker = t, company_name = name, enterprise_value = d_enterprise_value data,
             fcf_2025 = d_fcf_2025 data, fcf_2024 = d_fcf_2024 data,
             fcf_2023 = d_fcf_2023 data, fcf_2022 = d_fcf_2022 data,
             fcf_2021 = d_fcf_2021 data, average_fcf = a,
             fcf_yield = y, last_updated = now\<rparr> db)"
      by (simp add: upsert_def)
    with Some a y written show thesis by blast
  qed
qed

lemma upsert_rows:
  "r' \<in> set (snd (upsert now db data name)) \<Longrightarrow> r' \<in> set db \<or> derived_ok r'"
proof (cases rule: upsert_cases [of data now db name])
  case raised
  assume "r' \<in> set (snd (upsert now db data name))"
  with raised show ?thesis by simp
next
  case (written t a y)
  assume "r' \<in> set (snd (upsert now db data name))"
  with written show ?thesis
    by (auto simp: insert_or_replace_def derived_ok_def average_ok_def yield_ok_def fcf_years_def)
qed

lemma upsert_distinct:
  "distinct (map ticker db) \<Longrightarrow> distinct (map ticker (snd (upsert now db data name)))"
proof (cases rule: upsert_cases [of data now db name])
  case raised
  assume "distinct (map ticker db)"
  with raised show ?thesis by simp
next
  case (written t a y)
  assume "distinct (map ticker db)"
  with written show ?thesis
    by (auto simp: insert_or_replace_def distinct_map_filter)
qed

lemma map_ticker_sql_update:
  "(\<And>r. ticker (f r) = ticker r) \<Longrightarrow> map ticker (sql_update k f db) = map ticker db"
  by (induction db) (simp_all add: sql_update_def)

lemma update_fcf_cases:
  obtains (unchanged) "snd (update_fcf now db t year v) = db"
  | (written) rcd a yl where "year \<in> set [2021, 2022, 2023, 2024, 2025]" "get db t = Some rcd"
      "calculate_average_fcf (fcf_years (set_fcf year v rcd)) = Inr a"
      "calculate_fcf_yield a (enterprise_value rcd) = Inr yl"
      "update_fcf now db t year v =
        (Inr True, sql_update (upper t)
          (\<lambda>r. (set_fcf year v r)\<lparr>average_fcf := a, fcf_yield := yl, last_updated := now\<rparr>) db)"
proof (cases "year \<in> set [2021, 2022, 2023, 2024, 2025]")
  case False
  then have "snd (update_fcf now db t year v) = db" by (simp add: update_fcf_def)
  with unchanged show thesis by blast
next
  case y: True
  show thesis
  proof (cases "get db t")
    case None
    with y have "snd (update_fcf now db t year v) = db" by (simp add: update_fcf_def)
    with unchanged show thesis by blast
  next
    case (Some rcd)
    from update_fcf_found [OF y Some, of v now] y Some written show thesis by blast
  qed
qed

lemma update_fcf_rows:
  assumes pk: "distinct (map ticker db)" and r': "r' \<in> set (snd (update_fcf now db t year v))"
  shows "r' \<in> set db \<or> derived_ok r'"
proof (cases rule: update_fcf_cases [of now db t year v])
  case unchanged
  with r' show ?thesis by simp
next
  case (written rcd a yl)
  let ?f = "\<lambda>r. (set_fcf year v r)\<lparr>average_fcf := a, fcf_yield := yl, last_updated := now\<rparr>"
  from r' written(5) obtain r where r: "r \<in> set db" and
    e: "r' = (if ticker r = upper t then ?f r else r)"
    by (auto simp: sql_update_def)
  show ?thesis
  proof (cases "ticker r = upper t")
    case False
    with r e show ?thesis by simp
  next
    case True
    with pk written(2) r have "r = rcd"
      unfolding get_def by (intro find_distinct_key [of db "upper t" rcd r]) simp_all
    with True e have "r' = ?f rcd" by simp
    moreover have "derived_ok (?f rcd)"
      using written(3,4)
      by (simp add: derived_ok_def average_ok_def yield_ok_def fcf_years_def)
    ultimately show ?thesis by simp
  qed
qed

lemma update_fcf_distinct:
  "distinct (map ticker db) \<Longrightarrow> distinct (map ticker (snd (update_fcf now db t year v)))"
proof (cases rule: update_fcf_cases [of now db t year v])
  case unchanged
  assume "distinct (map ticker db)"
  with unchanged show ?thesis by simp
next
  case (written rcd a yl)
  assume "distinct (map ticker db)"
  with written(5) show ?thesis by (simp add: map_ticker_sql_update)
qed

lemma update_enterprise_value_cases:
  obtains (unchanged) "snd (update_enterprise_value now db t v) = db"
  | (written) rcd y where "get db t = Some rcd"
      "calculate_fcf_yield (average_fcf rcd) v = Inr y"
      "update_enterprise_value now db t v =
        (Inr True, sql_update (upper t)
          (\<lambda>r. r\<lparr>enterprise_value := v, fcf_yield := y, last_updated := now\<rparr>) db)"
proof (cases "get db t")
  case None
  then have "snd (update_enterprise_value now db t v) = db"
    by (simp add: update_enterprise_value_def)
  with unchanged show thesis by blast
next
  case (Some rcd)
  obtain y where y: "calculate_fcf_yield (average_fcf rcd) v = Inr y"
    using calculate_fcf_yield_total by blast
  with Some have "update_enterprise_value now db t v =
        (Inr True, sql_update (upper t)
          (\<lambda>r. r\<lparr>enterprise_value := v, fcf_yield := y, last_updated := now\<rparr>) db)"
    by (simp add: update_enterprise_value_def)
  with Some y written show thesis by blast
qed

lemma update_enterprise_value_rows:
  assumes pk: "distinct (map ticker db)"
    and r': "r' \<in> set (snd (update_enterprise_value now db t v))"
  shows "r' \<in> set db \<or>
    (yield_ok r' \<and> (\<exists>r \<in> set db. ticker r = ticker r' \<and> (average_ok r \<longrightarrow> derived_ok r')))"
proof (cases rule: update_enterprise_value_cases [of now db t v])
  case unchanged
  with r' show ?thesis by simp
next
  case (written rcd y)
  let ?f = "\<lambda>r. r\<lparr>enterprise_value := v, fcf_yield := y, last_updated := now\<rparr>"
  from r' written(3) obtain r where r: "r \<in> set db" and
    e: "r' = (if ticker r = upper t then ?f r else r)"
    by (auto simp: sql_update_def)
  show ?thesis
  proof (cases "ticker r = upper t")
    case False
    with r e show ?thesis by simp
  next
    case True
    with pk written(1) r have "r = rcd"
      unfolding get_def by (intro find_distinct_key [of db "upper t" rcd r]) simp_all
    with True e have "r' = ?f rcd" by simp
    moreover have "yield_ok (?f rcd)"
      using written(2) by (simp add: yield_ok_def)
    moreover have "average_ok rcd \<longrightarrow> average_ok (?f rcd)"
      by (simp add: average_ok_def fcf_years_def)
    moreover have "rcd \<in> set db" "ticker rcd = ticker (?f rcd)"
      using \<open>r = rcd\<close> r by simp_all
    ultimately show ?thesis unfolding derived_ok_def by blast
  qed
qed

lemma update_enterprise_value_distinct:
  "distinct (map ticker db) \<Longrightarrow>
   distinct (map ticker (snd (update_enterprise_value now db t v)))"
proof (cases rule: update_enterprise_value_cases [of now db t v])
  case unchanged
  assume "distinct (map ticker db)"
  with unchanged show ?thesis by simp
next
  case (written rcd y)
  assume "distinct (map ticker db)"
  with written(3) show ?thesis by (simp add: map_ticker_sql_update)
qed

lemma upsert_written:
  assumes t: "d_ticker data = Some t"
  shows "\<exists>r'. upsert now db data name = (Inr (), filter (\<lambda>x. ticker x \<noteq> t) db @ [r']) \<and>
    ticker r' = t \<and> company_name r' = name \<and>
    enterprise_value r' = d_enterprise_value data \<and>
    fcf_years r' =
      [d_fcf_2025 data, d_fcf_2024 data, d_fcf_2023 data, d_fcf_2022 data, d_fcf_2021 data] \<and>
    last_updated r' = now \<and> derived_ok r'"
proof (cases rule: upsert_cases [of data now db name])
  case raised
  with t show ?thesis by simp
next
  case (written t' a y)
  let ?r = "\<lparr>ticker = t', company_name = name, enterprise_value = d_enterprise_value data,
             fcf_2025 = d_fcf_2025 data, fcf_2024 = d_fcf_2024 data,
             fcf_2023 = d_fcf_2023 data, fcf_2022 = d_fcf_2022 data,
             fcf_2021 = d_fcf_2021 data, average_fcf = a,
             fcf_yield = y, last_updated = now\<rparr>"
  from written(1) t have tt: "t' = t" by simp
  have "derived_ok ?r"
    using written(2,3) by (simp add: derived_ok_def average_ok_def yield_ok_def fcf_years_def)
  moreover have "upsert now db data name = (Inr (), filter (\<lambda>x. ticker x \<noteq> t) db @ [?r])"
    unfolding written(4) by (simp add: insert_or_replace_def tt)
  ultimately show ?thesis
    by (intro exI [of _ ?r]) (simp add: fcf_years_def tt)
qed

lemma update_fcf_written:
  assumes y: "year \<in> set [2021, 2022, 2023, 2024, 2025]" and g: "get db t = Some r"
  shows "\<exists>r'. get (snd (update_fcf now db t year v)) t = Some r' \<and> fcf_of year r' = v \<and>
    (\<forall>y. y \<noteq> year \<longrightarrow> fcf_of y r' = fcf_of y r) \<and>
    enterprise_value r' = enterprise_value r \<and> derived_ok r'"
proof -
  from update_fcf_found [OF y g, of v now] obtain a yl where
    a: "calculate_average_fcf (fcf_years (set_fcf year v r)) = Inr a" and
    yl: "calculate_fcf_yield a (enterprise_value r) = Inr yl" and
    u: "update_fcf now db t year v =
       (Inr True, sql_update (upper t)
          (\<lambda>r. (set_fcf year v r)\<lparr>average_fcf := a, fcf_yield := yl, last_updated := now\<rparr>) db)"
    by blast
  let ?f = "\<lambda>r. (set_fcf year v r)\<lparr>average_fcf := a, fcf_yield := yl, last_updated := now\<rparr>"
  have k: "ticker r = upper t" using g unfolding get_def by (auto dest: find_SomeD)
  have g': "get (snd (update_fcf now db t year v)) t = Some (?f r)"
    using g k unfolding u get_def snd_conv by (intro find_sql_update) simp_all
  have years: "fcf_years (?f r) = fcf_years (set_fcf year v r)" by (simp add: fcf_years_def)
  have fo: "fcf_of y (?f r) = fcf_of y (set_fcf year v r)" for y by (simp add: fcf_of_def)
  have "derived_ok (?f r)"
    using a yl by (simp add: derived_ok_def average_ok_def yield_ok_def years)
  with g' show ?thesis
    by (intro exI [of _ "?f r"]) (simp add: fo fcf_of_set_fcf [OF y])
qed

lemma update_enterprise_value_written:
  assumes g: "get db t = Some r"
  shows "\<exists>r'. get (snd (update_enterprise_value now db t v)) t = Some r' \<and>
    enterprise_value r' = v \<and> fcf_years r' = fcf_years r \<and> average_fcf r' = average_fcf r \<and>
    yield_ok r' \<and> (average_ok r \<longrightarrow> derived_ok r')"
proof -
  obtain y where y: "calculate_fcf_yield (average_fcf r) v = Inr y"
    using calculate_fcf_yield_total by blast
  let ?f = "\<lambda>r. r\<lparr>enterprise_value := v, fcf_yield := y, last_updated := now\<rparr>"
  have u: "update_enterprise_value now db t v = (Inr True, sql_update (upper t) ?f db)"
    using g y by (simp add: update_enterprise_value_def)
  have k: "ticker r = upper t" using g unfolding get_def by (auto dest: find_SomeD)
  have g': "get (snd (update_enterprise_value now db t v)) t = Some (?f r)"
    using g k unfolding u get_def snd_conv by (intro find_sql_update) simp_all
  have "yield_ok (?f r)" using y by (simp add: yield_ok_def)
  moreover have "average_ok r \<longrightarrow> average_ok (?f r)"
    by (simp add: average_ok_def fcf_years_def)
  ultimately show ?thesis using g'
    by (intro exI [of _ "?f r"]) (simp add: derived_ok_def fcf_years_def)
qed

text \<open>
  Claim C1. Each mutation writes a row whose derived fields are recomputed from the
  inputs it stores. \<^verbatim>\<open>upsert\<close> of data with a ticker replaces the rows of that ticker by
  one row holding the enterprise value and the five years of the data, with both derived
  fields equal to their recomputation: the average from the row's own five years, the
  yield from the row's own average and enterprise value. \<^verbatim>\<open>update_fcf\<close> with a year in
  range on a stored ticker leaves under that ticker a row with the new value for the
  year, the other years and the enterprise value as before, and both derived fields
  recomputed. \<^verbatim>\<open>update_enterprise_value\<close> on a stored ticker leaves a row with the new
  enterprise value, the years and the average as before, and the yield recomputed; the
  average equals its recomputation when it did before. Under the primary key (no two
  rows with the same ticker) every other row of the table is a row the table already had,
  so a table in which every row has both derived fields recomputed stays so under the
  three mutations, which also keep the primary key. \<^verbatim>\<open>upsert\<close> of data without a ticker
  raises \<^verbatim>\<open>KeyError\<close> and leaves the table as it was.
\<close>


theorem derived_fields_recomputed:
  "(d_ticker data = None \<longrightarrow> upsert now db data name = (Inl KeyError, db)) \<and>
   (\<forall>k. d_ticker data = Some k \<longrightarrow>
      (\<exists>r'. upsert now db data name = (Inr (), filter (\<lambda>x. ticker x \<noteq> k) db @ [r']) \<and>
         ticker r' = k \<and> enterprise_value r' = d_enterprise_value data \<and>
         fcf_years r' =
           [d_fcf_2025 data, d_fcf_2024 data, d_fcf_2023 data, d_fcf_2022 data, d_fcf_2021 data] \<and>
         derived_ok r')) \<and>
   (\<forall>r. year \<in> {2021, 2022, 2023, 2024, 2025} \<and> get db t = Some r \<longrightarrow>
      (\<exists>r'. get (snd (update_fcf now db t year v)) t = Some r' \<and> fcf_of year r' = v \<and>
         (\<forall>y. y \<noteq> year \<longrightarrow> fcf_of y r' = fcf_of y r) \<and>
         enterprise_value r' = enterprise_value r \<and> derived_ok r')) \<and>
   (\<forall>r. get db t = Some r \<longrightarrow>
      (\<exists>r'. get (snd (update_enterprise_value now db t ev)) t = Some r' \<and>
         enterprise_value r' = ev \<and> fcf_years r' = fcf_years r \<and>
         average_fcf r' = average_fcf r \<and> yield_ok r' \<and> (average_ok r \<longrightarrow> derived_ok r'))) \<and>
   (distinct (map ticker db) \<longrightarrow>
      (\<forall>r' \<in> set (snd (upsert now db data name)). r' \<in> set db \<or> derived_ok r') \<and>
      (\<forall>r' \<in> set (snd (update_fcf now db t year v)). r' \<in> set db \<or> derived_ok r') \<and>
      (\<forall>r' \<in> set (snd (update_enterprise_value now db t ev)).
         r' \<in> set db \<or>
         (yield_ok r' \<and> (\<exists>r \<in> set db. ticker r = ticker r' \<and> (average_ok r \<longrightarrow> derived_ok r')))) \<and>
      ((\<forall>r \<in> set db. derived_ok r) \<longrightarrow>
         (\<forall>r' \<in> set (snd (upsert now db data name)). derived_ok r') \<and>
         (\<forall>r' \<in> set (snd (update_fcf now db t year v)). derived_ok r') \<and>
         (\<forall>r' \<in> set (snd (update_enterprise_value now db t ev)). derived_ok r')) \<and>
      distinct (map ticker (snd (upsert now db data name))) \<and>
      distinct (map ticker (snd (update_fcf now db t year v))) \<and>
      distinct (map ticker (snd (update_enterprise_value now db t ev))))"
proof -
  have w0: "d_ticker data = None \<longrightarrow> upsert now db data name = (Inl KeyError, db)"
    by (cases rule: upsert_cases [of data now db name]) simp_all
  have w1: "\<forall>k. d_ticker data = Some k \<longrightarrow>
      (\<exists>r'. upsert now db data name = (Inr (), filter (\<lambda>x. ticker x \<noteq> k) db @ [r']) \<and>
         ticker r' = k \<and> enterprise_value r' = d_enterprise_value data \<and>
         fcf_years r' =
           [d_fcf_2025 data, d_fcf_2024 data, d_fcf_2023 data, d_fcf_2022 data, d_fcf_2021 data] \<and>
         derived_ok r')"
  proof (intro allI impI)
    fix k assume "d_ticker data = Some k"
    from upsert_written [OF this, of now db name]
    show "\<exists>r'. upsert now db data name = (Inr (), filter (\<lambda>x. ticker x \<noteq> k) db @ [r']) \<and>
         ticker r' = k \<and> enterprise_value r' = d_enterprise_value data \<and>
         fcf_years r' =
           [d_fcf_2025 data, d_fcf_2024 data, d_fcf_2023 data, d_fcf_2022 data, d_fcf_2021 data] \<and>
         derived_ok r'"
      by blast
  qed
  have w2: "\<forall>r. year \<in> {2021, 2022, 2023, 2024, 2025} \<and> get db t = Some r \<longrightarrow>
      (\<exists>r'. get (snd (update_fcf now db t year v)) t = Some r' \<and> fcf_of year r' = v \<and>
         (\<forall>y. y \<noteq> year \<longrightarrow> fcf_of y r' = fcf_of y r) \<and>
         enterprise_value r' = enterprise_value r \<and> derived_ok r')"
  proof (intro allI impI)
    fix r assume a: "year \<in> {2021, 2022, 2023, 2024, 2025} \<and> get db t = Some r"
    then have y: "year \<in> set [2021, 2022, 2023, 2024, 2025]" and g: "get db t = Some r"
      by simp_all
    from update_fcf_written [OF y g]
    show "\<exists>r'. get (snd (update_fcf now db t year v)) t = Some r' \<and> fcf_of year r' = v \<and>
         (\<forall>y. y \<noteq> year \<longrightarrow> fcf_of y r' = fcf_of y r) \<and>
         enterprise_value r' = enterprise_value r \<and> derived_ok r'" .
  qed
  have w3: "\<forall>r. get db t = Some r \<longrightarrow>
      (\<exists>r'. get (snd (update_enterprise_value now db t ev)) t = Some r' \<and>
         enterprise_value r' = ev \<and> fcf_years r' = fcf_years r \<and>
         average_fcf r' = average_fcf r \<and> yield_ok r' \<and> (average_ok r \<longrightarrow> derived_ok r'))"
    using update_enterprise_value_written by blast
  have rest: "(\<forall>r' \<in> set (snd (upsert now db data name)). r' \<in> set db \<or> derived_ok r') \<and>
      (\<forall>r' \<in> set (snd (update_fcf now db t year v)). r' \<in> set db \<or> derived_ok r') \<and>
      (\<forall>r' \<in> set (snd (update_enterprise_value now db t ev)).
         r' \<in> set db \<or>
         (yield_ok r' \<and> (\<exists>r \<in> set db. ticker r = ticker r' \<and> (average_ok r \<longrightarrow> derived_ok r')))) \<and>
      ((\<forall>r \<in> set db. derived_ok r) \<longrightarrow>
         (\<forall>r' \<in> set (snd (upsert now db data name)). derived_ok r') \<and>
         (\<forall>r' \<in> set (snd (update_fcf now db t year v)). derived_ok r') \<and>
         (\<forall>r' \<in> set (snd (update_enterprise_value now db t ev)). derived_ok r')) \<and>
      distinct (map ticker (snd (upsert now db data name))) \<and>
      distinct (map ticker (snd (update_fcf now db t year v))) \<and>
      distinct (map ticker (snd (update_enterprise_value now db t ev)))"
    if pk: "distinct (map ticker db)"
  proof -
    have 1: "\<forall>r' \<in> set (snd (upsert now db data name)). r' \<in> set db \<or> derived_ok r'"
      using upsert_rows by blast
    have 2: "\<forall>r' \<in> set (snd (update_fcf now db t year v)). r' \<in> set db \<or> derived_ok r'"
      using update_fcf_rows [OF pk] by blast
    have 3: "\<forall>r' \<in> set (snd (update_enterprise_value now db t ev)).
        r' \<in> set db \<or>
        (yield_ok r' \<and> (\<exists>r \<in> set db. ticker r = ticker r' \<and> (average_ok r \<longrightarrow> derived_ok r')))"
      using update_enterprise_value_rows [OF pk] by blast
    have 4: "(\<forall>r \<in> set db. derived_ok r) \<longrightarrow>
        (\<forall>r' \<in> set (snd (upsert now db data name)). derived_ok r') \<and>
        (\<forall>r' \<in> set (snd (update_fcf now db t year v)). derived_ok r') \<and>
        (\<forall>r' \<in> set (snd (update_enterprise_value now db t ev)). derived_ok r')"
      using 1 2 3 unfolding derived_ok_def by blast
    from 1 2 3 4 upsert_distinct [OF pk] update_fcf_distinct [OF pk]
      update_enterprise_value_distinct [OF pk]
    show ?thesis by blast
  qed
  show ?thesis
    by (intro conjI) (rule w0, rule w1, rule w2, rule w3, rule impI, erule rest)
qed

lemma update_fcf_example:
  "update_fcf ''2026-03-01T22:30:00'' [row_aapl] ''aapl'' 2023 (Some 600) =
     (Inr True, [row_aapl\<lparr>fcf_2023 := Some 600, average_fcf := Some 300,
        fcf_yield := Some (to_double (3 / 100)), last_updated := ''2026-03-01T22:30:00''\<rparr>])"
proof -
  have a: "calculate_average_fcf [Some 100, Some 200, Some 600, None, None] = Inr (Some 300)"
    by (simp add: calculate_average_fcf_def py_truediv_def)
  show ?thesis
    unfolding update_fcf_def get_row_aapl
    by (simp add: a yield_examples row_aapl_def upper_aapl sql_update_def set_fcf_def)
qed

lemma update_enterprise_value_example:
  "update_enterprise_value ''2026-03-01T22:00:00'' [row_aapl] ''aapl'' (Some 2000) =
     (Inr True, [row_aapl\<lparr>enterprise_value := Some 2000, fcf_yield := Some (to_double (75 / 1000)),
        last_updated := ''2026-03-01T22:00:00''\<rparr>])"
  unfolding update_enterprise_value_def get_row_aapl
  by (simp add: yield_examples row_aapl_def upper_aapl sql_update_def)

lemma upsert_example:
  "upsert now [] data_aapl ''Apple Inc.'' = (Inr (), [row_aapl\<lparr>last_updated := now\<rparr>])"
proof -
  have a: "calculate_average_fcf [Some 100, Some 200, None, None, None] = Inr (Some 150)"
    by (simp add: calculate_average_fcf_def py_truediv_def)
  show ?thesis
    by (simp add: upsert_def data_aapl_def a yield_examples row_aapl_def insert_or_replace_def)
qed

lemma derived_ok_row_aapl: "derived_ok row_aapl"
  by (simp add: derived_ok_def average_ok_def yield_ok_def fcf_years_def row_aapl_def
      calculate_average_fcf_def py_truediv_def yield_examples)

lemma get_singleton_aapl: "ticker r = ''AAPL'' \<Longrightarrow> get [r] ''aapl'' = Some r"
  by (simp add: get_def upper_aapl)

theorem derived_fields_recomputed_witness:
  "d_ticker data_aapl = Some ''AAPL'' \<and> get [row_aapl] ''aapl'' = Some row_aapl \<and>
   (2023::int) \<in> {2021, 2022, 2023, 2024, 2025} \<and>
   distinct (map ticker [row_aapl]) \<and> derived_ok row_aapl \<and>
   upsert ''2026-03-01T21:00:00'' [] data_aapl ''Apple Inc.'' =
     (Inr (), [row_aapl\<lparr>last_updated := ''2026-03-01T21:00:00''\<rparr>]) \<and>
   derived_ok (row_aapl\<lparr>last_updated := ''2026-03-01T21:00:00''\<rparr>) \<and>
   get (snd (update_fcf ''2026-03-01T22:30:00'' [row_aapl] ''aapl'' 2023 (Some 600))) ''aapl'' =
     Some (row_aapl\<lparr>fcf_2023 := Some 600, average_fcf := Some 300,
        fcf_yield := Some (to_double (3 / 100)), last_updated := ''2026-03-01T22:30:00''\<rparr>) \<and>
   derived_ok (row_aapl\<lparr>fcf_2023 := Some 600, average_fcf := Some 300,
        fcf_yield := Some (to_double (3 / 100)), last_updated := ''2026-03-01T22:30:00''\<rparr>) \<and>
   get (snd (update_enterprise_value ''2026-03-01T22:00:00'' [row_aapl] ''aapl'' (Some 2000)))
       ''aapl'' =
     Some (row_aapl\<lparr>enterprise_value := Some 2000, fcf_yield := Some (to_double (75 / 1000)),
        last_updated := ''2026-03-01T22:00:00''\<rparr>) \<and>
   derived_ok (row_aapl\<lparr>enterprise_value := Some 2000, fcf_yield := Some (to_double (75 / 1000)),
        last_updated := ''2026-03-01T22:00:00''\<rparr>)"
proof -
  let ?r1 = "row_aapl\<lparr>last_updated := ''2026-03-01T21:00:00''\<rparr>"
  let ?r2 = "row_aapl\<lparr>fcf_2023 := Some 600, average_fcf := Some 300,
        fcf_yield := Some (to_double (3 / 100)), last_updated := ''2026-03-01T22:30:00''\<rparr>"
  let ?r3 = "row_aapl\<lparr>enterprise_value := Some 2000, fcf_yield := Some (to_double (75 / 1000)),
        last_updated := ''2026-03-01T22:00:00''\<rparr>"
  have k: "d_ticker data_aapl = Some ''AAPL''" by (simp add: data_aapl_def)
  have y: "(2023::int) \<in> {2021, 2022, 2023, 2024, 2025}" by simp
  have pk: "distinct (map ticker [row_aapl])" by simp
  have a: "average_ok row_aapl" using derived_ok_row_aapl by (simp add: derived_ok_def)
  have u1: "upsert ''2026-03-01T21:00:00'' [] data_aapl ''Apple Inc.'' = (Inr (), [?r1])"
    by (rule upsert_example)
  have g2: "get (snd (update_fcf ''2026-03-01T22:30:00'' [row_aapl] ''aapl'' 2023 (Some 600)))
      ''aapl'' = Some ?r2"
    unfolding update_fcf_example snd_conv
    by (rule get_singleton_aapl) (simp add: row_aapl_def)
  have g3: "get (snd (update_enterprise_value ''2026-03-01T22:00:00'' [row_aapl] ''aapl''
      (Some 2000))) ''aapl'' = Some ?r3"
    unfolding update_enterprise_value_example snd_conv
    by (rule get_singleton_aapl) (simp add: row_aapl_def)
  note s1 = derived_fields_recomputed [of data_aapl "''2026-03-01T21:00:00''" "[]"
      "''Apple Inc.''" 2023 "''aapl''" "Some 600" "Some 2000"]
  note s2 = derived_fields_recomputed [of data_aapl "''2026-03-01T22:30:00''" "[row_aapl]"
      "''Apple Inc.''" 2023 "''aapl''" "Some 600" "Some 2000"]
  note s3 = derived_fields_recomputed [of data_aapl "''2026-03-01T22:00:00''" "[row_aapl]"
      "''Apple Inc.''" 2023 "''aapl''" "Some 600" "Some 2000"]
  from s1 [THEN conjunct2, THEN conjunct1, THEN spec, THEN mp, OF k]
  obtain r1 where "upsert ''2026-03-01T21:00:00'' [] data_aapl ''Apple Inc.'' =
      (Inr (), filter (\<lambda>x. ticker x \<noteq> ''AAPL'') [] @ [r1])" and "derived_ok r1"
    by blast
  with u1 have d1: "derived_ok ?r1" by simp
  from y get_row_aapl
  have p2: "(2023::int) \<in> {2021, 2022, 2023, 2024, 2025} \<and> get [row_aapl] ''aapl'' = Some row_aapl"
    by (rule conjI)
  from s2 [THEN conjunct2, THEN conjunct2, THEN conjunct1, THEN spec, THEN mp, OF p2]
  obtain r2 where "get (snd (update_fcf ''2026-03-01T22:30:00'' [row_aapl] ''aapl'' 2023
      (Some 600))) ''aapl'' = Some r2" and "derived_ok r2"
    by blast
  with g2 have d2: "derived_ok ?r2" by simp
  from s3 [THEN conjunct2, THEN conjunct2, THEN conjunct2, THEN conjunct1, THEN spec, THEN mp,
      OF get_row_aapl]
  obtain r3 where "get (snd (update_enterprise_value ''2026-03-01T22:00:00'' [row_aapl] ''aapl''
      (Some 2000))) ''aapl'' = Some r3" and "average_ok row_aapl \<longrightarrow> derived_ok r3"
    by blast
  with g3 a have d3: "derived_ok ?r3" by simp
  from k get_row_aapl y pk derived_ok_row_aapl u1 d1 g2 d2 g3 d3 show ?thesis by simp
qed

subsection \<open>Repeating an upsert\<close>

lemma insert_or_replace_twice:
  "ticker r2 = ticker r1 \<Longrightarrow>
   insert_or_replace r2 (insert_or_replace r1 db) = insert_or_replace r2 db"
  by (simp add: insert_or_replace_def)

lemma insert_or_replace_erase:
  "f r2 = f r1 \<Longrightarrow> ticker r2 = ticker r1 \<Longrightarrow>
   map f (insert_or_replace r2 db) = map f (insert_or_replace r1 db)"
  by (simp add: insert_or_replace_def)

text \<open>
  Claim C9, as stated, fails: a second \<^verbatim>\<open>upsert\<close> with the same inputs stamps its own
  time, so the stored record is not the one the first call left.
\<close>

theorem upsert_twice_counterexample:
  "snd (upsert ''2026-01-02T09:00:00''
          (snd (upsert ''2026-01-01T09:00:00'' [] data_aapl ''Apple Inc.''))
          data_aapl ''Apple Inc.'')
   \<noteq> snd (upsert ''2026-01-01T09:00:00'' [] data_aapl ''Apple Inc.'')"
  unfolding upsert_example
proof -
  have "upsert ''2026-01-02T09:00:00'' [row_aapl\<lparr>last_updated := ''2026-01-01T09:00:00''\<rparr>]
      data_aapl ''Apple Inc.'' =
    (Inr (), [row_aapl\<lparr>last_updated := ''2026-01-02T09:00:00''\<rparr>])"
  proof -
    have a: "calculate_average_fcf [Some 100, Some 200, None, None, None] = Inr (Some 150)"
      by (simp add: calculate_average_fcf_def py_truediv_def)
    show ?thesis
      by (simp add: upsert_def data_aapl_def a yield_examples row_aapl_def
          insert_or_replace_def)
  qed
  then show "snd (upsert ''2026-01-02T09:00:00''
          (snd (Inr (), [row_aapl\<lparr>last_updated := ''2026-01-01T09:00:00''\<rparr>]))
          data_aapl ''Apple Inc.'')
   \<noteq> snd (Inr (), [row_aapl\<lparr>last_updated := ''2026-01-01T09:00:00''\<rparr>])"
    by (simp add: row_aapl_def)
qed

text \<open>
  Claim C9, amended. Performing \<^verbatim>\<open>upsert\<close> twice with the same inputs gives the result
  and the table of the second call performed alone; against the first call performed
  alone the outcome is the same and the tables agree in every field but \<open>last_updated\<close>.
\<close>

theorem upsert_twice:
  "upsert now2 (snd (upsert now1 db data name)) data name = upsert now2 db data name \<and>
   fst (upsert now2 (snd (upsert now1 db data name)) data name) = fst (upsert now1 db data name) \<and>
   map (\<lambda>r. r\<lparr>last_updated := []\<rparr>) (snd (upsert now2 (snd (upsert now1 db data name)) data name)) =
   map (\<lambda>r. r\<lparr>last_updated := []\<rparr>) (snd (upsert now1 db data name))"
proof (cases "d_ticker data")
  case None
  then have "upsert n d data name = (Inl KeyError, d)" for n d
    by (cases rule: upsert_cases [of data n d name]) simp_all
  then show ?thesis by simp
next
  case (Some t)
  obtain a where a: "calculate_average_fcf
         [d_fcf_2025 data, d_fcf_2024 data, d_fcf_2023 data, d_fcf_2022 data, d_fcf_2021 data] = Inr a"
    using calculate_average_fcf_total by blast
  obtain y where y: "calculate_fcf_yield a (d_enterprise_value data) = Inr y"
    using calculate_fcf_yield_total by blast
  define row where "row n =
    \<lparr>ticker = t, company_name = name, enterprise_value = d_enterprise_value data,
             fcf_2025 = d_fcf_2025 data, fcf_2024 = d_fcf_2024 data,
             fcf_2023 = d_fcf_2023 data, fcf_2022 = d_fcf_2022 data,
             fcf_2021 = d_fcf_2021 data, average_fcf = a,
             fcf_yield = y, last_updated = n\<rparr>" for n
  have u: "upsert n d data name = (Inr (), insert_or_replace (row n) d)" for n d
    using Some a y by (simp add: upsert_def row_def)
  have k: "ticker (row n) = t" for n by (simp add: row_def)
  have "insert_or_replace (row now2) (insert_or_replace (row now1) db) =
    insert_or_replace (row now2) db"
    by (rule insert_or_replace_twice) (simp add: k)
  moreover have "map (\<lambda>r. r\<lparr>last_updated := []\<rparr>) (insert_or_replace (row now2) db) =
    map (\<lambda>r. r\<lparr>last_updated := []\<rparr>) (insert_or_replace (row now1) db)"
    by (rule insert_or_replace_erase) (simp_all add: row_def)
  ultimately show ?thesis by (simp add: u)
qed

theorem upsert_twice_witness:
  "upsert ''2026-01-02T09:00:00''
     (snd (upsert ''2026-01-01T09:00:00'' [] data_aapl ''Apple Inc.'')) data_aapl ''Apple Inc.'' =
   (Inr (), [row_aapl\<lparr>last_updated := ''2026-01-02T09:00:00''\<rparr>])"
  using upsert_twice [of "''2026-01-02T09:00:00''" "''2026-01-01T09:00:00''" "[]" data_aapl
      "''Apple Inc.''"]
  unfolding upsert_example [of "''2026-01-02T09:00:00''"] by simp

section \<open>Properties of the ticker resolver\<close>

text \<open>\<open>str_in\<close> is the substring test.\<close>

lemma str_in_iff: "str_in sub s \<longleftrightarrow> (\<exists>ps ss. s = ps @ sub @ ss)"
proof (induction s)
  case Nil
  then show ?case by auto
next
  case (Cons c cs)
  show ?case
  proof
    assume "str_in sub (c # cs)"
    then consider "prefix sub (c # cs)" | "str_in sub cs" by auto
    then show "\<exists>ps ss. c # cs = ps @ sub @ ss"
    proof cases
      case 1
      then obtain ss where "c # cs = sub @ ss" by (auto simp: prefix_def)
      then have "c # cs = [] @ sub @ ss" by simp
      then show ?thesis by blast
    next
      case 2
      with Cons.IH obtain ps ss where "cs = ps @ sub @ ss" by blast
      then have "c # cs = (c # ps) @ sub @ ss" by simp
      then show ?thesis by blast
    qed
  next
    assume "\<exists>ps ss. c # cs = ps @ sub @ ss"
    then obtain ps ss where e: "c # cs = ps @ sub @ ss" by blast
    show "str_in sub (c # cs)"
    proof (cases ps)
      case Nil
      with e have "prefix sub (c # cs)" by (simp add: prefix_def)
      then show ?thesis by simp
    next
      case (Cons p ps')
      with e have "cs = ps' @ sub @ ss" by simp
      with Cons.IH show ?thesis by auto
    qed
  qed
qed

text \<open>The company of a well-formed entry has a ticker and a title that are strings.\<close>

lemma well_formed_company:
  assumes "well_formed_entry (Some entry)"
  shows "company_ticker (company_of entry) = PyStr (ticker_str (company_of entry))"
    and "title (company_of entry) = PyStr (title_str (company_of entry))"
  using assms
  by (auto simp: well_formed_entry_def company_of_def ticker_str_def title_str_def
      split: option.splits pyval.splits)

lemma last_filter_step:
  "(case filter P ys of [] \<Rightarrow> (if P c then Some c else d) | z # zs \<Rightarrow> Some (last (z # zs))) =
   (case filter P (c # ys) of [] \<Rightarrow> d | z # zs \<Rightarrow> Some (last (z # zs)))"
  by (cases "filter P ys") simp_all

text \<open>
  On well-formed entries the loop of the loader runs to its end: the companies are
  appended in the order of the file, and a key of the map holds the last company stored
  under it.
\<close>

lemma load_entries_well_formed:
  assumes "list_all well_formed_entry entries"
  shows "fst (load_entries sm entries r) = None \<and>
    companies (snd (load_entries sm entries r)) = companies r @ map (company_of \<circ> the) entries \<and>
    (\<forall>k. ticker_map (snd (load_entries sm entries r)) k =
      (case filter (\<lambda>c. str_upper sm (ticker_str c) = k) (map (company_of \<circ> the) entries) of
         [] \<Rightarrow> ticker_map r k
       | c # cs \<Rightarrow> Some (last (c # cs))))"
  using assms
proof (induction entries arbitrary: r)
  case Nil
  show ?case by simp
next
  case (Cons x xs)
  from Cons.prems have wx: "well_formed_entry x" and rest: "list_all well_formed_entry xs"
    by simp_all
  from wx obtain entry where x: "x = Some entry"
    by (cases x) (simp_all add: well_formed_entry_def)
  with wx have wf: "well_formed_entry (Some entry)" by simp
  let ?c = "company_of entry"
  let ?r = "r\<lparr>companies := companies r @ [?c],
    ticker_map := (ticker_map r)(str_upper sm (ticker_str ?c) \<mapsto> ?c)\<rparr>"
  let ?ys = "map (company_of \<circ> the) xs"
  have step: "load_entries sm (x # xs) r = load_entries sm xs ?r"
    unfolding x by (simp add: Let_def well_formed_company(1) [OF wf])
  note ih = Cons.IH [OF rest, of ?r]
  from ih have f: "fst (load_entries sm xs ?r) = None" by (rule conjunct1)
  from ih have c: "companies (snd (load_entries sm xs ?r)) = companies ?r @ ?ys"
    by (rule conjunct2 [THEN conjunct1])
  from ih have m: "ticker_map (snd (load_entries sm xs ?r)) k =
      (case filter (\<lambda>c. str_upper sm (ticker_str c) = k) ?ys of
         [] \<Rightarrow> ticker_map ?r k
       | c # cs \<Rightarrow> Some (last (c # cs)))" for k
    by (rule conjunct2 [THEN conjunct2, THEN spec])
  have m': "ticker_map (snd (load_entries sm (x # xs) r)) k =
      (case filter (\<lambda>c. str_upper sm (ticker_str c) = k) (map (company_of \<circ> the) (x # xs)) of
         [] \<Rightarrow> ticker_map r k
       | c # cs \<Rightarrow> Some (last (c # cs)))" for k
  proof -
    have tm: "ticker_map ?r k =
        (if str_upper sm (ticker_str ?c) = k then Some ?c else ticker_map r k)"
      by auto
    have "ticker_map (snd (load_entries sm (x # xs) r)) k =
      (case filter (\<lambda>c. str_upper sm (ticker_str c) = k) ?ys of
         [] \<Rightarrow> ticker_map ?r k
       | c # cs \<Rightarrow> Some (last (c # cs)))"
      unfolding step by (rule m)
    also have "\<dots> =
      (case filter (\<lambda>c. str_upper sm (ticker_str c) = k) ?ys of
         [] \<Rightarrow> (if str_upper sm (ticker_str ?c) = k then Some ?c else ticker_map r k)
       | c # cs \<Rightarrow> Some (last (c # cs)))"
      by (subst tm) (rule refl)
    also have "\<dots> = (case filter (\<lambda>c. str_upper sm (ticker_str c) = k) (?c # ?ys) of
         [] \<Rightarrow> ticker_map r k
       | c # cs \<Rightarrow> Some (last (c # cs)))"
      by (rule last_filter_step)
    finally show ?thesis by (simp add: x)
  qed
  have "companies (snd (load_entries sm (x # xs) r)) =
      companies r @ map (company_of \<circ> the) (x # xs)"
    unfolding step c by (simp add: x)
  with f m' show ?case unfolding step by blast
qed

lemma load_data_well_formed:
  assumes "well_formed contents"
  shows "fst (load_data sm contents) = None"
    and "companies (snd (load_data sm contents)) =
      (case contents of Inl e \<Rightarrow> [] | Inr RootOther \<Rightarrow> []
       | Inr (RootDict entries) \<Rightarrow> map (company_of \<circ> the) entries)"
    and "ticker_map (snd (load_data sm contents)) k =
      (case filter (\<lambda>c. str_upper sm (ticker_str c) = k) (companies (snd (load_data sm contents))) of
         [] \<Rightarrow> None
       | c # cs \<Rightarrow> Some (last (c # cs)))"
proof -
  have "fst (load_data sm contents) = None \<and>
    companies (snd (load_data sm contents)) =
      (case contents of Inl e \<Rightarrow> [] | Inr RootOther \<Rightarrow> []
       | Inr (RootDict entries) \<Rightarrow> map (company_of \<circ> the) entries) \<and>
    ticker_map (snd (load_data sm contents)) k =
      (case filter (\<lambda>c. str_upper sm (ticker_str c) = k) (companies (snd (load_data sm contents))) of
         [] \<Rightarrow> None
       | c # cs \<Rightarrow> Some (last (c # cs)))"
  proof (cases contents)
    case (Inl e)
    with assms show ?thesis by (auto simp: well_formed_def load_data_def)
  next
    case (Inr root)
    show ?thesis
    proof (cases root)
      case RootOther
      with Inr assms show ?thesis by (simp add: well_formed_def)
    next
      case (RootDict entries)
      with Inr assms have wf: "list_all well_formed_entry entries" by (simp add: well_formed_def)
      let ?e = "\<lparr>companies = [], ticker_map = Map.empty\<rparr> :: 'a TickerResolver"
      have l: "load_data sm contents = load_entries sm entries ?e"
        using Inr RootDict by (simp add: load_data_def)
      let ?F = "filter (\<lambda>c. str_upper sm (ticker_str c) = k) (map (company_of \<circ> the) entries)"
      note lw = load_entries_well_formed [OF wf, of sm ?e]
      from lw have a: "fst (load_entries sm entries ?e) = None" by blast
      from lw have b: "companies (snd (load_entries sm entries ?e)) =
          map (company_of \<circ> the) entries"
        by simp
      from lw have "ticker_map (snd (load_entries sm entries ?e)) k =
          (case ?F of [] \<Rightarrow> ticker_map ?e k | c # cs \<Rightarrow> Some (last (c # cs)))"
        by blast
      then have c: "ticker_map (snd (load_entries sm entries ?e)) k =
          (case ?F of [] \<Rightarrow> None | c # cs \<Rightarrow> Some (last (c # cs)))"
        by (cases ?F) simp_all
      from a b c show ?thesis
        unfolding l using Inr RootDict by simp
    qed
  qed
  then show "fst (load_data sm contents) = None"
    and "companies (snd (load_data sm contents)) =
      (case contents of Inl e \<Rightarrow> [] | Inr RootOther \<Rightarrow> []
       | Inr (RootDict entries) \<Rightarrow> map (company_of \<circ> the) entries)"
    and "ticker_map (snd (load_data sm contents)) k =
      (case filter (\<lambda>c. str_upper sm (ticker_str c) = k) (companies (snd (load_data sm contents))) of
         [] \<Rightarrow> None
       | c # cs \<Rightarrow> Some (last (c # cs)))"
    by simp_all
qed

lemma load_data_strings:
  assumes "well_formed contents" and "c \<in> set (companies (snd (load_data sm contents)))"
  shows "company_ticker c = PyStr (ticker_str c) \<and> title c = PyStr (title_str c)"
proof (cases contents)
  case (Inl e)
  with assms load_data_well_formed(2) [OF assms(1), of sm] show ?thesis by simp
next
  case (Inr root)
  show ?thesis
  proof (cases root)
    case RootOther
    with Inr assms(1) show ?thesis by (simp add: well_formed_def)
  next
    case (RootDict entries)
    with Inr assms(1) have wf: "list_all well_formed_entry entries" by (simp add: well_formed_def)
    from assms(2) load_data_well_formed(2) [OF assms(1), of sm] Inr RootDict
    obtain x where x: "x \<in> set entries" and c: "c = company_of (the x)" by auto
    from wf x have w: "well_formed_entry x" by (simp add: list_all_iff)
    then obtain entry where "x = Some entry" by (cases x) (auto simp: well_formed_entry_def)
    with w c well_formed_company [of entry] show ?thesis by simp
  qed
qed

text \<open>Over companies whose titles are strings the loop of \<^verbatim>\<open>resolve\<close> is a search.\<close>

lemma partial_match_find:
  assumes "\<forall>c \<in> set cs. title c = PyStr (title_str c)"
  shows "partial_match sm l cs =
    Inr (map_option company_ticker (find (\<lambda>c. str_in l (str_lower sm (title_str c))) cs))"
  using assms
proof (induction cs)
  case Nil
  show ?case by simp
next
  case (Cons c cs)
  then have t: "title c = PyStr (title_str c)" and
    r: "partial_match sm l cs =
      Inr (map_option company_ticker (find (\<lambda>c. str_in l (str_lower sm (title_str c))) cs))"
    by simp_all
  have "partial_match sm l (c # cs) =
    (if str_in l (str_lower sm (title_str c)) then Inr (Some (company_ticker c))
     else partial_match sm l cs)"
    by (subst partial_match.simps) (simp add: t)
  with r show ?case by simp
qed

text \<open>
  Claim C7, as stated, fails: \<^verbatim>\<open>resolve\<close> raises on a directory file with a null ticker,
  on one whose root is not an object, and on one that cannot be read.
\<close>

theorem resolve_counterexample:
  "fst (resolve ascii (Inr null_ticker_file) None ''aapl'') = Inl AttributeError \<and>
   fst (resolve ascii (Inr RootOther) None ''aapl'') = Inl AttributeError \<and>
   fst (resolve ascii (Inl OSError) None ''aapl'') = Inl OSError"
  by code_simp

text \<open>
  Claim C7, amended. Let the directory file be well formed, and the resolver not loaded
  yet or loaded from it. Then the load raises nothing, the directory is the companies of
  the entries in the order of the file, with tickers and titles that are strings, and for
  every input \<^verbatim>\<open>resolve\<close> returns a string and leaves the resolver loaded. (1) If the
  trimmed, uppercased input equals the uppercased ticker of a directory entry, the result
  is the ticker of such an entry (the last one in the directory, as the map keeps the last
  entry stored under a key). (2) Otherwise, if \<open>i\<close> is the first position whose
  lowercased title contains the trimmed, lowercased input, the result is the ticker of
  entry \<open>i\<close>. (3) Otherwise, when no title contains it, the result is the trimmed,
  uppercased input. This holds for any string methods \<open>sm\<close>.
\<close>

theorem resolve_spec:
  assumes "well_formed contents"
    and "self = None \<or> self = Some (snd (load_data sm contents))"
  shows
  "fst (load_data sm contents) = None \<and>
   (\<forall>es. contents = Inr (RootDict (map Some es)) \<longrightarrow>
      companies (snd (load_data sm contents)) = map company_of es) \<and>
   (\<forall>e. contents = Inl e \<longrightarrow> companies (snd (load_data sm contents)) = []) \<and>
   (\<forall>c \<in> set (companies (snd (load_data sm contents))).
      company_ticker c = PyStr (ticker_str c) \<and> title c = PyStr (title_str c)) \<and>
   snd (resolve sm contents self s) = Some (snd (load_data sm contents)) \<and>
   (\<exists>t. fst (resolve sm contents self s) = Inr (PyStr t)) \<and>
   ((\<exists>c \<in> set (companies (snd (load_data sm contents))).
        str_upper sm (ticker_str c) = str_upper sm (str_strip sm s)) \<longrightarrow>
      fst (resolve sm contents self s) =
        Inr (PyStr (ticker_str (last (filter
               (\<lambda>c. str_upper sm (ticker_str c) = str_upper sm (str_strip sm s))
               (companies (snd (load_data sm contents)))))))) \<and>
   (\<not> (\<exists>c \<in> set (companies (snd (load_data sm contents))).
        str_upper sm (ticker_str c) = str_upper sm (str_strip sm s)) \<longrightarrow>
      (\<forall>i. i < length (companies (snd (load_data sm contents))) \<and>
         str_in (str_lower sm (str_strip sm s))
           (str_lower sm (title_str (companies (snd (load_data sm contents)) ! i))) \<and>
         (\<forall>j < i. \<not> str_in (str_lower sm (str_strip sm s))
           (str_lower sm (title_str (companies (snd (load_data sm contents)) ! j))))
         \<longrightarrow> fst (resolve sm contents self s) =
               Inr (PyStr (ticker_str (companies (snd (load_data sm contents)) ! i)))) \<and>
      ((\<forall>c \<in> set (companies (snd (load_data sm contents))).
          \<not> str_in (str_lower sm (str_strip sm s)) (str_lower sm (title_str c))) \<longrightarrow>
       fst (resolve sm contents self s) = Inr (PyStr (str_upper sm (str_strip sm s)))))"
proof -
  let ?r = "snd (load_data sm contents)"
  let ?u = "str_upper sm (str_strip sm s)"
  let ?l = "str_lower sm (str_strip sm s)"
  let ?m = "filter (\<lambda>c. str_upper sm (ticker_str c) = ?u) (companies ?r)"
  let ?P = "\<lambda>c. str_in ?l (str_lower sm (title_str c))"
  note wf = assms(1)
  note ld = load_data_well_formed [OF wf, of sm]
  have strs: "\<forall>c \<in> set (companies ?r).
      company_ticker c = PyStr (ticker_str c) \<and> title c = PyStr (title_str c)"
    using load_data_strings [OF wf] by blast
  have loaded: "(case self of None \<Rightarrow> load_data sm contents | Some r \<Rightarrow> (None, r)) = (None, ?r)"
  proof -
    from assms(2) consider "self = None" | "self = Some ?r" by blast
    then show ?thesis
    proof cases
      case 1
      then show ?thesis using ld(1) by (simp add: prod_eq_iff)
    next
      case 2
      then show ?thesis by simp
    qed
  qed
  have res: "resolve sm contents self s =
      (if ticker_map ?r ?u \<noteq> None
       then (case ticker_map ?r ?u of None \<Rightarrow> Inl KeyError
             | Some company \<Rightarrow> Inr (company_ticker company))
       else (case partial_match sm ?l (companies ?r) of
               Inl e \<Rightarrow> Inl e
             | Inr (Some t) \<Rightarrow> Inr t
             | Inr None \<Rightarrow> Inr (PyStr ?u)),
       Some ?r)"
    unfolding resolve_def Let_def loaded by simp
  have st: "snd (resolve sm contents self s) = Some ?r" unfolding res by simp
  have pm: "partial_match sm ?l (companies ?r) =
      Inr (map_option company_ticker (find ?P (companies ?r)))"
    using strs by (intro partial_match_find) blast
  have ex: "(\<exists>c \<in> set (companies ?r). str_upper sm (ticker_str c) = ?u) \<longleftrightarrow> ?m \<noteq> []"
    by (auto simp: filter_empty_conv)
  have hit: "fst (resolve sm contents self s) = Inr (PyStr (ticker_str (last ?m)))" if "?m \<noteq> []"
  proof -
    from that obtain c cs where m: "?m = c # cs" by (cases ?m) auto
    then have tm: "ticker_map ?r ?u = Some (last ?m)"
      by (subst ld(3)) simp
    from that have "last ?m \<in> set ?m" by (rule last_in_set)
    then have "last ?m \<in> set (companies ?r)" by simp
    with strs have "company_ticker (last ?m) = PyStr (ticker_str (last ?m))" by blast
    with tm show ?thesis unfolding res by simp
  qed
  have miss: "fst (resolve sm contents self s) =
      (case find ?P (companies ?r) of Some c \<Rightarrow> Inr (PyStr (ticker_str c)) | None \<Rightarrow> Inr (PyStr ?u))"
    if "?m = []"
  proof -
    from that have tm: "ticker_map ?r ?u = None"
      by (subst ld(3)) simp
    show ?thesis
    proof (cases "find ?P (companies ?r)")
      case None
      with tm pm show ?thesis unfolding res by simp
    next
      case (Some c)
      then have "c \<in> set (companies ?r)" by (auto simp: find_Some_iff)
      with strs have "company_ticker c = PyStr (ticker_str c)" by blast
      with Some tm pm show ?thesis unfolding res by simp
    qed
  qed
  have first: "fst (resolve sm contents self s) = Inr (PyStr (ticker_str (companies ?r ! i)))"
    if "?m = []" "i < length (companies ?r)" "?P (companies ?r ! i)"
      "\<forall>j < i. \<not> ?P (companies ?r ! j)" for i
  proof -
    from that(2-4) have "find ?P (companies ?r) = Some (companies ?r ! i)"
      unfolding find_Some_iff by blast
    with miss [OF that(1)] show ?thesis by simp
  qed
  have none: "fst (resolve sm contents self s) = Inr (PyStr ?u)"
    if "?m = []" "\<forall>c \<in> set (companies ?r). \<not> ?P c"
  proof -
    from that(2) have "find ?P (companies ?r) = None"
      unfolding find_None_iff by blast
    with miss [OF that(1)] show ?thesis by simp
  qed
  have total: "\<exists>t. fst (resolve sm contents self s) = Inr (PyStr t)"
  proof (cases "?m = []")
    case True
    with miss show ?thesis by (cases "find ?P (companies ?r)") simp_all
  next
    case False
    with hit show ?thesis by blast
  qed
  have dir: "\<forall>es. contents = Inr (RootDict (map Some es)) \<longrightarrow>
      companies ?r = map company_of es"
    using ld(2) by (auto simp: comp_def)
  have dir0: "\<forall>e. contents = Inl e \<longrightarrow> companies ?r = []"
    using ld(2) by auto
  have c1: "(\<exists>c \<in> set (companies ?r). str_upper sm (ticker_str c) = ?u) \<longrightarrow>
      fst (resolve sm contents self s) = Inr (PyStr (ticker_str (last ?m)))"
    unfolding ex using hit by blast
  have c2: "\<not> (\<exists>c \<in> set (companies ?r). str_upper sm (ticker_str c) = ?u) \<longrightarrow>
      (\<forall>i. i < length (companies ?r) \<and> ?P (companies ?r ! i) \<and>
         (\<forall>j < i. \<not> ?P (companies ?r ! j))
         \<longrightarrow> fst (resolve sm contents self s) = Inr (PyStr (ticker_str (companies ?r ! i)))) \<and>
      ((\<forall>c \<in> set (companies ?r). \<not> ?P c) \<longrightarrow>
       fst (resolve sm contents self s) = Inr (PyStr ?u))"
    unfolding ex using first none by blast
  show ?thesis
    by (intro conjI) (rule ld(1), rule dir, rule dir0, rule strs, rule st, rule total, rule c1,
        rule c2)
qed

lemma ascii_methods [simp]:
  "str_upper ascii = upper" "str_lower ascii = lower" "str_strip ascii = strip"
  by (simp_all add: ascii_def)

lemma directory_well_formed: "well_formed (Inr directory_file)"
  by (simp add: well_formed_def well_formed_entry_def directory_file_def)

lemma directory_companies:
  "companies (snd (load_data ascii (Inr directory_file))) =
     [\<lparr>company_ticker = PyStr ''AAPL'', title = PyStr ''Apple Inc.'', cik_str = PyOther\<rparr>,
      \<lparr>company_ticker = PyStr ''APLE'', title = PyStr ''Apple Hospitality REIT, Inc.'',
       cik_str = PyOther\<rparr>,
      \<lparr>company_ticker = PyStr ''MSFT'', title = PyStr ''MICROSOFT CORP'', cik_str = PyOther\<rparr>]"
  unfolding load_data_well_formed(2) [OF directory_well_formed]
  by (simp add: directory_file_def company_of_def)

lemma directory_strings:
  "upper ''AAPL'' = ''AAPL''" "upper ''APLE'' = ''APLE''" "upper ''MSFT'' = ''MSFT''"
  "upper (strip ''aapl'') = ''AAPL''" "upper (strip '' Apple '') = ''APPLE''"
  "upper (strip ''zzznomatch'') = ''ZZZNOMATCH''"
  "lower (strip '' Apple '') = ''apple''" "lower (strip ''zzznomatch'') = ''zzznomatch''"
  "lower ''Apple Inc.'' = ''apple inc.''"
  "lower ''Apple Hospitality REIT, Inc.'' = ''apple hospitality reit, inc.''"
  "lower ''MICROSOFT CORP'' = ''microsoft corp''"
  by code_simp+

theorem resolve_spec_witness:
  "well_formed (Inr directory_file) \<and>
   fst (resolve ascii (Inr directory_file) None ''aapl'') = Inr (PyStr ''AAPL'') \<and>
   fst (resolve ascii (Inr directory_file) None '' Apple '') = Inr (PyStr ''AAPL'') \<and>
   fst (resolve ascii (Inr directory_file) None ''zzznomatch'') = Inr (PyStr ''ZZZNOMATCH'') \<and>
   fst (resolve ascii (Inr directory_file)
          (snd (resolve ascii (Inr directory_file) None ''aapl'')) '' Apple '') =
     Inr (PyStr ''AAPL'')"
proof -
  let ?f = "Inr directory_file :: exn + char json_root"
  let ?r = "snd (load_data ascii ?f)"
  note wf = directory_well_formed
  note d = directory_companies directory_strings ticker_str_def title_str_def
  have fresh: "(None :: char TickerResolver option) = None \<or> None = Some ?r" by simp
  have "\<exists>c \<in> set (companies ?r). str_upper ascii (ticker_str c) = str_upper ascii (str_strip ascii ''aapl'')"
    by (simp add: d)
  with resolve_spec [OF wf fresh, of "''aapl''"]
  have "fst (resolve ascii ?f None ''aapl'') =
        Inr (PyStr (ticker_str (last (filter
               (\<lambda>c. str_upper ascii (ticker_str c) = str_upper ascii (str_strip ascii ''aapl''))
               (companies ?r)))))"
    by blast
  then have 1: "fst (resolve ascii ?f None ''aapl'') = Inr (PyStr ''AAPL'')" by (simp add: d)
  have n2: "\<not> (\<exists>c \<in> set (companies ?r).
      str_upper ascii (ticker_str c) = str_upper ascii (str_strip ascii '' Apple ''))"
    by (simp add: d)
  have f2: "0 < length (companies ?r) \<and>
     str_in (str_lower ascii (str_strip ascii '' Apple ''))
       (str_lower ascii (title_str (companies ?r ! 0))) \<and>
     (\<forall>j < 0. \<not> str_in (str_lower ascii (str_strip ascii '' Apple ''))
       (str_lower ascii (title_str (companies ?r ! j))))"
    by (simp add: d)
  from n2 f2 resolve_spec [OF wf fresh, of "'' Apple ''"]
  have "fst (resolve ascii ?f None '' Apple '') = Inr (PyStr (ticker_str (companies ?r ! 0)))"
    by blast
  then have 2: "fst (resolve ascii ?f None '' Apple '') = Inr (PyStr ''AAPL'')" by (simp add: d)
  have n3: "\<not> (\<exists>c \<in> set (companies ?r).
      str_upper ascii (ticker_str c) = str_upper ascii (str_strip ascii ''zzznomatch''))"
    by (simp add: d)
  have "\<forall>c \<in> set (companies ?r).
      \<not> str_in (str_lower ascii (str_strip ascii ''zzznomatch'')) (str_lower ascii (title_str c))"
    by (simp add: d)
  with n3 resolve_spec [OF wf fresh, of "''zzznomatch''"]
  have "fst (resolve ascii ?f None ''zzznomatch'') =
      Inr (PyStr (str_upper ascii (str_strip ascii ''zzznomatch'')))"
    by blast
  then have 3: "fst (resolve ascii ?f None ''zzznomatch'') = Inr (PyStr ''ZZZNOMATCH'')"
    by (simp add: d)
  from resolve_spec [OF wf fresh, of "''aapl''"]
  have s: "snd (resolve ascii ?f None ''aapl'') = Some ?r" by blast
  then have again: "snd (resolve ascii ?f None ''aapl'') = None \<or>
      snd (resolve ascii ?f None ''aapl'') = Some ?r" by simp
  from n2 f2 resolve_spec [OF wf again, of "'' Apple ''"]
  have "fst (resolve ascii ?f (snd (resolve ascii ?f None ''aapl'')) '' Apple '') =
      Inr (PyStr (ticker_str (companies ?r ! 0)))"
    by blast
  then have 4: "fst (resolve ascii ?f (snd (resolve ascii ?f None ''aapl'')) '' Apple '') =
      Inr (PyStr ''AAPL'')"
    by (simp add: d)
  from wf 1 2 3 4 show ?thesis by blast
qed

section \<open>Properties of the data provider\<close>

lemma getattr_setattr_fcf:
  "y \<in> set TARGET_YEARS \<Longrightarrow>
   getattr_fcf y' (setattr_fcf y v d) = (if y' = y then v else getattr_fcf y' d)"
  by (auto simp: TARGET_YEARS_def getattr_fcf_def setattr_fcf_def)

lemma getattr_annual_column:
  "y \<in> set TARGET_YEARS \<Longrightarrow>
   getattr_fcf y (annual_column a (col, yr) d) =
     (if yr = y \<and> cell_value (fr_cell a ''Free Cash Flow'' col) \<noteq> None
      then cell_value (fr_cell a ''Free Cash Flow'' col) else getattr_fcf y d)"
  by (auto simp: annual_column_def getattr_setattr_fcf split: option.splits)

lemma getattr_fold_annual_column:
  assumes y: "y \<in> set TARGET_YEARS"
  shows "getattr_fcf y (fold (annual_column a) xs d) =
     (case filter (\<lambda>(col, yr). yr = y \<and> cell_value (fr_cell a ''Free Cash Flow'' col) \<noteq> None) xs of
        [] \<Rightarrow> getattr_fcf y d
      | c # cs \<Rightarrow> cell_value (fr_cell a ''Free Cash Flow'' (fst (last (c # cs)))))"
proof (induction xs rule: rev_induct)
  case Nil
  then show ?case by simp
next
  case (snoc x xs)
  obtain col yr where x: "x = (col, yr)" by (cases x)
  let ?P = "\<lambda>(col, yr). yr = y \<and> cell_value (fr_cell a ''Free Cash Flow'' col) \<noteq> None"
  show ?case
  proof (cases "?P x")
    case True
    let ?ys = "filter ?P xs @ [x]"
    have "(case ?ys of [] \<Rightarrow> getattr_fcf y d
        | c # cs \<Rightarrow> cell_value (fr_cell a ''Free Cash Flow'' (fst (last (c # cs))))) =
      cell_value (fr_cell a ''Free Cash Flow'' (fst (last ?ys)))"
      by (cases ?ys) simp_all
    with True x show ?thesis by (simp add: getattr_annual_column [OF y])
  next
    case False
    then have "filter ?P (xs @ [x]) = filter ?P xs" by simp
    with False x snoc.IH show ?thesis by (auto simp add: getattr_annual_column [OF y])
  qed
qed

lemma getattr_annual:
  assumes y: "y \<in> set TARGET_YEARS"
  shows "getattr_fcf y
      (if \<not> empty_frame a \<and> ''Free Cash Flow'' \<in> set (fr_index a)
       then fold (annual_column a) (enumerate 0 (fr_columns a))
         \<lparr>f_fcf_2025 = None, f_fcf_2024 = None, f_fcf_2023 = None,
          f_fcf_2022 = None, f_fcf_2021 = None\<rparr>
       else \<lparr>f_fcf_2025 = None, f_fcf_2024 = None, f_fcf_2023 = None,
          f_fcf_2022 = None, f_fcf_2021 = None\<rparr>) = annual_figure a y"
proof -
  have n: "getattr_fcf y \<lparr>f_fcf_2025 = None, f_fcf_2024 = None, f_fcf_2023 = None,
          f_fcf_2022 = None, f_fcf_2021 = None\<rparr> = None"
    by (simp add: getattr_fcf_def)
  show ?thesis
    by (simp add: annual_figure_def getattr_fold_annual_column [OF y] n split: list.splits)
qed

lemma length_map_filter_le: "length (List.map_filter f xs) \<le> length xs"
  by (simp add: map_filter_def)

lemma length_map_filter_less:
  "x \<in> set xs \<Longrightarrow> f x = None \<Longrightarrow> length (List.map_filter f xs) < length xs"
proof (induction xs)
  case Nil
  then show ?case by simp
next
  case (Cons a xs)
  have le: "length (List.map_filter f xs) \<le> length xs"
    by (rule length_map_filter_le)
  show ?case
  proof (cases "x = a")
    case True
    with Cons.prems le show ?thesis by (simp add: map_filter_simps)
  next
    case False
    with Cons have "length (List.map_filter f xs) < length xs" by simp
    then show ?thesis by (cases "f a") (simp_all add: map_filter_simps)
  qed
qed

lemma upt_0_4: "[0..<4] = [0, 1, 2, 3::nat]"
  by (simp add: upt_rec)

lemma four_quarters:
  fixes f :: "nat \<Rightarrow> 'a option"
  shows "length (List.map_filter f [0 ..< min 4 n]) = 4 \<longleftrightarrow>
     4 \<le> n \<and> f 0 \<noteq> None \<and> f 1 \<noteq> None \<and> f 2 \<noteq> None \<and> f 3 \<noteq> None"
proof
  assume l: "length (List.map_filter f [0 ..< min 4 n]) = 4"
  have "length (List.map_filter f [0 ..< min 4 n]) \<le> length [0 ..< min 4 n]"
    by (rule length_map_filter_le)
  with l have n: "4 \<le> n" by simp
  then have m: "min 4 n = 4" by simp
  have "f c \<noteq> None" if "c \<in> set [0, 1, 2, 3::nat]" for c
  proof
    assume none: "f c = None"
    from that have "c \<in> set [0 ..< 4]" unfolding upt_0_4 .
    from this none have "length (List.map_filter f [0 ..< 4]) < length [0 ..< (4::nat)]"
      by (rule length_map_filter_less)
    with l m show False by simp
  qed
  then have "f 0 \<noteq> None \<and> f 1 \<noteq> None \<and> f 2 \<noteq> None \<and> f 3 \<noteq> None" by simp
  with n show "4 \<le> n \<and> f 0 \<noteq> None \<and> f 1 \<noteq> None \<and> f 2 \<noteq> None \<and> f 3 \<noteq> None" by simp
next
  assume a: "4 \<le> n \<and> f 0 \<noteq> None \<and> f 1 \<noteq> None \<and> f 2 \<noteq> None \<and> f 3 \<noteq> None"
  then have m: "min 4 n = 4" by simp
  from a obtain v0 v1 v2 v3 where "f 0 = Some v0" "f 1 = Some v1" "f 2 = Some v2" "f 3 = Some v3"
    by auto
  then have "List.map_filter f [0, 1, 2, 3] = [v0, v1, v2, v3]"
    by (simp add: map_filter_simps)
  then show "length (List.map_filter f [0 ..< min 4 n]) = 4"
    unfolding m upt_0_4 by simp
qed

lemma four_quarters_values:
  fixes f :: "nat \<Rightarrow> 'a option"
  assumes "4 \<le> n" "f 0 = Some v0" "f 1 = Some v1" "f 2 = Some v2" "f 3 = Some v3"
  shows "List.map_filter f [0 ..< min 4 n] = [v0, v1, v2, v3]"
proof -
  from assms(1) have m: "min 4 n = 4" by simp
  from assms(2-) have "List.map_filter f [0, 1, 2, 3] = [v0, v1, v2, v3]"
    by (simp add: map_filter_simps)
  then show ?thesis unfolding m upt_0_4 .
qed

lemma cell_value_Some: "cell_value c = Some v \<longleftrightarrow> c = Num v"
  by (cases c) auto

lemma calculate_ttm_fcf_Some:
  "calculate_ttm_fcf p t = Some s \<longleftrightarrow>
     (\<exists>q v0 v1 v2 v3. quarterly_cash_flow p t = Inr q \<and> \<not> empty_frame q \<and>
        ''Free Cash Flow'' \<in> set (fr_index q) \<and> 4 \<le> length (fr_columns q) \<and>
        fr_cell q ''Free Cash Flow'' 0 = Num v0 \<and> fr_cell q ''Free Cash Flow'' 1 = Num v1 \<and>
        fr_cell q ''Free Cash Flow'' 2 = Num v2 \<and> fr_cell q ''Free Cash Flow'' 3 = Num v3 \<and>
        s = v0 + v1 + v2 + v3)"
  (is "?lhs \<longleftrightarrow> ?rhs")
proof
  assume ?rhs
  then obtain q v0 v1 v2 v3 where q: "quarterly_cash_flow p t = Inr q" and
    b: "\<not> empty_frame q" "''Free Cash Flow'' \<in> set (fr_index q)" and
    n: "4 \<le> length (fr_columns q)" and
    v: "fr_cell q ''Free Cash Flow'' 0 = Num v0" "fr_cell q ''Free Cash Flow'' 1 = Num v1"
      "fr_cell q ''Free Cash Flow'' 2 = Num v2" "fr_cell q ''Free Cash Flow'' 3 = Num v3" and
    s: "s = v0 + v1 + v2 + v3"
    by blast
  let ?f = "\<lambda>col. cell_value (fr_cell q ''Free Cash Flow'' col)"
  from v have "?f 0 = Some v0" "?f 1 = Some v1" "?f 2 = Some v2" "?f 3 = Some v3"
    by simp_all
  with n have "List.map_filter ?f [0 ..< min 4 (length (fr_columns q))] = [v0, v1, v2, v3]"
    by (rule four_quarters_values)
  with q b s show ?lhs
    by (simp add: calculate_ttm_fcf_def)
next
  assume l: ?lhs
  then obtain q where q: "quarterly_cash_flow p t = Inr q"
    by (cases "quarterly_cash_flow p t") (simp_all add: calculate_ttm_fcf_def)
  let ?f = "\<lambda>col. cell_value (fr_cell q ''Free Cash Flow'' col)"
  let ?vq = "List.map_filter ?f [0 ..< min 4 (length (fr_columns q))]"
  have e: "\<not> empty_frame q"
  proof
    assume "empty_frame q"
    with q have "calculate_ttm_fcf p t = None" by (simp add: calculate_ttm_fcf_def)
    with l show False by simp
  qed
  have i: "''Free Cash Flow'' \<in> set (fr_index q)"
  proof (rule ccontr)
    assume "''Free Cash Flow'' \<notin> set (fr_index q)"
    with q e have "calculate_ttm_fcf p t = None" by (simp add: calculate_ttm_fcf_def)
    with l show False by simp
  qed
  from q e i have c: "calculate_ttm_fcf p t =
      (if length ?vq = 4 then Some (sum_list ?vq) else None)"
    by (simp add: calculate_ttm_fcf_def Let_def)
  have len: "length ?vq = 4"
  proof (rule ccontr)
    assume "length ?vq \<noteq> 4"
    with c have "calculate_ttm_fcf p t = None" by simp
    with l show False by simp
  qed
  with four_quarters [of ?f "length (fr_columns q)"]
  have "4 \<le> length (fr_columns q) \<and> ?f 0 \<noteq> None \<and> ?f 1 \<noteq> None \<and>
      ?f 2 \<noteq> None \<and> ?f 3 \<noteq> None"
    by blast
  then obtain v0 v1 v2 v3 where n: "4 \<le> length (fr_columns q)" and
    f: "?f 0 = Some v0" "?f 1 = Some v1" "?f 2 = Some v2" "?f 3 = Some v3"
    by auto
  from n f have vq: "?vq = [v0, v1, v2, v3]" by (rule four_quarters_values)
  from c len l have "s = sum_list ?vq" by simp
  then have s: "s = v0 + v1 + v2 + v3" unfolding vq by simp
  from f have "fr_cell q ''Free Cash Flow'' 0 = Num v0" "fr_cell q ''Free Cash Flow'' 1 = Num v1"
      "fr_cell q ''Free Cash Flow'' 2 = Num v2" "fr_cell q ''Free Cash Flow'' 3 = Num v3"
    by (simp_all only: cell_value_Some)
  with q e i n s show ?rhs by blast
qed


lemma getattr_fcf_fields:
  "f_fcf_2025 d = getattr_fcf 2025 d" "f_fcf_2024 d = getattr_fcf 2024 d"
  "f_fcf_2023 d = getattr_fcf 2023 d" "f_fcf_2022 d = getattr_fcf 2022 d"
  "f_fcf_2021 d = getattr_fcf 2021 d"
  by (simp_all add: getattr_fcf_def)

lemma target_years:
  "2025 \<in> set TARGET_YEARS" "2024 \<in> set TARGET_YEARS" "2023 \<in> set TARGET_YEARS"
  "2022 \<in> set TARGET_YEARS" "2021 \<in> set TARGET_YEARS"
  by (simp_all add: TARGET_YEARS_def)

lemma get_free_cash_flow_raised:
  "cash_flow p t = Inl e \<Longrightarrow>
   get_free_cash_flow p t =
     \<lparr>f_fcf_2025 = None, f_fcf_2024 = None, f_fcf_2023 = None, f_fcf_2022 = None,
      f_fcf_2021 = None\<rparr>"
  by (simp add: get_free_cash_flow_def)

lemma get_free_cash_flow_read:
  assumes a: "cash_flow p t = Inr a"
  shows "getattr_fcf y (get_free_cash_flow p t) =
     (if y = 2025
      then (case annual_figure a 2025 of Some v \<Rightarrow> Some v | None \<Rightarrow> calculate_ttm_fcf p t)
      else if y \<in> set TARGET_YEARS then annual_figure a y else None)"
proof -
  let ?r0 = "\<lparr>f_fcf_2025 = None, f_fcf_2024 = None, f_fcf_2023 = None,
          f_fcf_2022 = None, f_fcf_2021 = None\<rparr>"
  let ?r = "if \<not> empty_frame a \<and> ''Free Cash Flow'' \<in> set (fr_index a)
       then fold (annual_column a) (enumerate 0 (fr_columns a)) ?r0 else ?r0"
  have g: "get_free_cash_flow p t =
      (if f_fcf_2025 ?r = None
       then (case calculate_ttm_fcf p t of Some ttm \<Rightarrow> ?r\<lparr>f_fcf_2025 := Some ttm\<rparr> | None \<Rightarrow> ?r)
       else ?r)"
    using a by (simp add: get_free_cash_flow_def Let_def)
  have r: "getattr_fcf y ?r = annual_figure a y" if "y \<in> set TARGET_YEARS" for y
    using that by (rule getattr_annual)
  have r25: "f_fcf_2025 ?r = annual_figure a 2025"
    unfolding getattr_fcf_fields using r [OF target_years(1)] .
  have upd: "getattr_fcf y (d\<lparr>f_fcf_2025 := v\<rparr>) = (if y = 2025 then v else getattr_fcf y d)"
    for d v
    by (simp add: getattr_fcf_def)
  have out: "getattr_fcf y d = None" if "y \<notin> set TARGET_YEARS" for d
    using that by (simp add: getattr_fcf_def TARGET_YEARS_def)
  show ?thesis
  proof (cases "y \<in> set TARGET_YEARS")
    case False
    then have "y \<noteq> 2025" using target_years(1) by blast
    with False show ?thesis by (simp add: out)
  next
    case True
    show ?thesis
    proof (cases "annual_figure a 2025")
      case (Some v)
      with r25 have "get_free_cash_flow p t = ?r" unfolding g by simp
      with True Some r show ?thesis by simp
    next
      case None
      show ?thesis
      proof (cases "calculate_ttm_fcf p t")
        case ttm: None
        with None r25 have "get_free_cash_flow p t = ?r" unfolding g by simp
        with True None ttm r show ?thesis by simp
      next
        case ttm: (Some v)
        with None r25 have "get_free_cash_flow p t = ?r\<lparr>f_fcf_2025 := Some v\<rparr>"
          unfolding g by simp
        with True None ttm r show ?thesis by (simp add: upd)
      qed
    qed
  qed
qed

lemma ttm_quarters_25: "calculate_ttm_fcf provider_annual_down ''AAPL'' = Some 100"
proof -
  have "\<exists>q v0 v1 v2 v3. quarterly_cash_flow provider_annual_down ''AAPL'' = Inr q \<and>
        \<not> empty_frame q \<and>
        ''Free Cash Flow'' \<in> set (fr_index q) \<and> 4 \<le> length (fr_columns q) \<and>
        fr_cell q ''Free Cash Flow'' 0 = Num v0 \<and> fr_cell q ''Free Cash Flow'' 1 = Num v1 \<and>
        fr_cell q ''Free Cash Flow'' 2 = Num v2 \<and> fr_cell q ''Free Cash Flow'' 3 = Num v3 \<and>
        (100::real) = v0 + v1 + v2 + v3"
    by (intro exI [of _ quarters_25] exI [of _ 25])
      (simp add: provider_annual_down_def quarters_25_def empty_frame_def)
  then show ?thesis by (simp only: calculate_ttm_fcf_Some)
qed

text \<open>
  Claim C6, as stated, fails: when reading the annual statement raises, no annual figure
  for 2025 is obtained and the four most recent quarters are all valid, yet 2025 stays
  unset, since the handler of \<^verbatim>\<open>get_free_cash_flow\<close> returns before the fallback.
\<close>

theorem ttm_fallback_counterexample:
  "cash_flow provider_annual_down ''AAPL'' = Inl ProviderError \<and>
   calculate_ttm_fcf provider_annual_down ''AAPL'' = Some 100 \<and>
   f_fcf_2025 (get_free_cash_flow provider_annual_down ''AAPL'') = None"
proof -
  have c: "cash_flow provider_annual_down ''AAPL'' = Inl ProviderError"
    by (simp add: provider_annual_down_def)
  from get_free_cash_flow_raised [OF c]
  have "f_fcf_2025 (get_free_cash_flow provider_annual_down ''AAPL'') = None" by simp
  with c ttm_quarters_25 show ?thesis by blast
qed

text \<open>
  Claim C6, amended. When reading the annual statement raises, all five years stay unset
  and no fallback is made. When it is read, 2025 is the published annual figure and, only
  when there is none, the trailing-twelve-month value; 2021 to 2024 are the published
  annual figures and nothing else. The trailing-twelve-month value exists exactly when the
  quarterly statement is read without an exception, is not empty, has the row
  ``Free Cash Flow'' and its four most recent columns all hold numbers; it is their sum.
\<close>

theorem ttm_fallback_spec:
  "(\<forall>e. cash_flow p t = Inl e \<longrightarrow>
      get_free_cash_flow p t =
        \<lparr>f_fcf_2025 = None, f_fcf_2024 = None, f_fcf_2023 = None, f_fcf_2022 = None,
         f_fcf_2021 = None\<rparr>) \<and>
   (\<forall>a. cash_flow p t = Inr a \<longrightarrow>
      f_fcf_2025 (get_free_cash_flow p t) =
        (case annual_figure a 2025 of Some v \<Rightarrow> Some v | None \<Rightarrow> calculate_ttm_fcf p t) \<and>
      f_fcf_2024 (get_free_cash_flow p t) = annual_figure a 2024 \<and>
      f_fcf_2023 (get_free_cash_flow p t) = annual_figure a 2023 \<and>
      f_fcf_2022 (get_free_cash_flow p t) = annual_figure a 2022 \<and>
      f_fcf_2021 (get_free_cash_flow p t) = annual_figure a 2021) \<and>
   (\<forall>s. calculate_ttm_fcf p t = Some s \<longleftrightarrow>
      (\<exists>q v0 v1 v2 v3. quarterly_cash_flow p t = Inr q \<and> \<not> empty_frame q \<and>
        ''Free Cash Flow'' \<in> set (fr_index q) \<and> 4 \<le> length (fr_columns q) \<and>
        fr_cell q ''Free Cash Flow'' 0 = Num v0 \<and> fr_cell q ''Free Cash Flow'' 1 = Num v1 \<and>
        fr_cell q ''Free Cash Flow'' 2 = Num v2 \<and> fr_cell q ''Free Cash Flow'' 3 = Num v3 \<and>
        s = v0 + v1 + v2 + v3))"
proof -
  have 1: "\<forall>e. cash_flow p t = Inl e \<longrightarrow>
      get_free_cash_flow p t =
        \<lparr>f_fcf_2025 = None, f_fcf_2024 = None, f_fcf_2023 = None, f_fcf_2022 = None,
         f_fcf_2021 = None\<rparr>"
    using get_free_cash_flow_raised by blast
  have 2: "f_fcf_2025 (get_free_cash_flow p t) =
        (case annual_figure a 2025 of Some v \<Rightarrow> Some v | None \<Rightarrow> calculate_ttm_fcf p t) \<and>
      f_fcf_2024 (get_free_cash_flow p t) = annual_figure a 2024 \<and>
      f_fcf_2023 (get_free_cash_flow p t) = annual_figure a 2023 \<and>
      f_fcf_2022 (get_free_cash_flow p t) = annual_figure a 2022 \<and>
      f_fcf_2021 (get_free_cash_flow p t) = annual_figure a 2021"
    if "cash_flow p t = Inr a" for a
    unfolding getattr_fcf_fields get_free_cash_flow_read [OF that]
    by (simp add: TARGET_YEARS_def)
  from 1 2 calculate_ttm_fcf_Some show ?thesis by blast
qed

lemma annual_2024_figures:
  "annual_figure annual_2024 2025 = None" "annual_figure annual_2024 2024 = Some 200"
  "annual_figure annual_2024 2023 = None" "annual_figure annual_2024 2022 = None"
  "annual_figure annual_2024 2021 = None"
  by (simp_all add: annual_figure_def annual_2024_def empty_frame_def enumerate_eq_zip upt_rec)

theorem ttm_fallback_spec_witness:
  "cash_flow provider_up ''AAPL'' = Inr annual_2024 \<and>
   get_free_cash_flow provider_up ''AAPL'' =
     \<lparr>f_fcf_2025 = Some 100, f_fcf_2024 = Some 200, f_fcf_2023 = None, f_fcf_2022 = None,
      f_fcf_2021 = None\<rparr> \<and>
   get_free_cash_flow provider_annual_down ''AAPL'' =
     \<lparr>f_fcf_2025 = None, f_fcf_2024 = None, f_fcf_2023 = None, f_fcf_2022 = None,
      f_fcf_2021 = None\<rparr>"
proof -
  note s = ttm_fallback_spec
  have c: "cash_flow provider_up ''AAPL'' = Inr annual_2024"
    by (simp add: provider_up_def)
  have "\<exists>q v0 v1 v2 v3. quarterly_cash_flow provider_up ''AAPL'' = Inr q \<and>
        \<not> empty_frame q \<and>
        ''Free Cash Flow'' \<in> set (fr_index q) \<and> 4 \<le> length (fr_columns q) \<and>
        fr_cell q ''Free Cash Flow'' 0 = Num v0 \<and> fr_cell q ''Free Cash Flow'' 1 = Num v1 \<and>
        fr_cell q ''Free Cash Flow'' 2 = Num v2 \<and> fr_cell q ''Free Cash Flow'' 3 = Num v3 \<and>
        (100::real) = v0 + v1 + v2 + v3"
    by (intro exI [of _ quarters_25] exI [of _ 25])
      (simp add: provider_up_def quarters_25_def empty_frame_def)
  with s [of provider_up "''AAPL''"] have ttm: "calculate_ttm_fcf provider_up ''AAPL'' = Some 100"
    by blast
  from s [of provider_up "''AAPL''"] c
  have "f_fcf_2025 (get_free_cash_flow provider_up ''AAPL'') =
        (case annual_figure annual_2024 2025 of Some v \<Rightarrow> Some v
         | None \<Rightarrow> calculate_ttm_fcf provider_up ''AAPL'') \<and>
      f_fcf_2024 (get_free_cash_flow provider_up ''AAPL'') = annual_figure annual_2024 2024 \<and>
      f_fcf_2023 (get_free_cash_flow provider_up ''AAPL'') = annual_figure annual_2024 2023 \<and>
      f_fcf_2022 (get_free_cash_flow provider_up ''AAPL'') = annual_figure annual_2024 2022 \<and>
      f_fcf_2021 (get_free_cash_flow provider_up ''AAPL'') = annual_figure annual_2024 2021"
    by blast
  then have up: "get_free_cash_flow provider_up ''AAPL'' =
     \<lparr>f_fcf_2025 = Some 100, f_fcf_2024 = Some 200, f_fcf_2023 = None, f_fcf_2022 = None,
      f_fcf_2021 = None\<rparr>"
    by (cases "get_free_cash_flow provider_up ''AAPL''") (simp add: annual_2024_figures ttm)
  have "cash_flow provider_annual_down ''AAPL'' = Inl ProviderError"
    by (simp add: provider_annual_down_def)
  with s [of provider_annual_down "''AAPL''"]
  have down: "get_free_cash_flow provider_annual_down ''AAPL'' =
     \<lparr>f_fcf_2025 = None, f_fcf_2024 = None, f_fcf_2023 = None, f_fcf_2022 = None,
      f_fcf_2021 = None\<rparr>"
    by blast
  from c up down show ?thesis by blast
qed

section \<open>Properties of the refresh jobs\<close>

lemma update_enterprise_value_no_raise:
  "\<exists>b. fst (update_enterprise_value now db t v) = Inr b"
proof (cases "get db t")
  case None
  then have "fst (update_enterprise_value now db t v) = Inr False"
    by (simp add: update_enterprise_value_def)
  then show ?thesis by blast
next
  case (Some rcd)
  obtain y where "calculate_fcf_yield (average_fcf rcd) v = Inr y"
    using calculate_fcf_yield_total by blast
  with Some have "fst (update_enterprise_value now db t v) = Inr True"
    by (simp add: update_enterprise_value_def)
  then show ?thesis by blast
qed

lemma update_fcf_no_raise:
  assumes "year \<in> set [2021, 2022, 2023, 2024, 2025]"
  shows "\<exists>b. fst (update_fcf now db t year v) = Inr b"
proof (cases "get db t")
  case None
  with assms have "fst (update_fcf now db t year v) = Inr False"
    by (simp add: update_fcf_def)
  then show ?thesis by blast
next
  case (Some rcd)
  from update_fcf_found [OF assms Some, of v now] show ?thesis by (metis fst_conv)
qed

lemma ev_step_tally:
  "snd (ev_step now_at fails p r (db, s, e)) =
     (s + (if get_enterprise_value p (Stock (ticker r)) \<noteq> None \<and> \<not> fails (ticker r) then 1 else 0),
      e + (if get_enterprise_value p (Stock (ticker r)) \<noteq> None \<and> fails (ticker r) then 1 else 0))"
proof (cases "get_enterprise_value p (Stock (ticker r))")
  case None
  then show ?thesis by (simp add: ev_step_def)
next
  case (Some v)
  show ?thesis
  proof (cases "fails (ticker r)")
    case True
    with Some show ?thesis by (simp add: ev_step_def store_call_def)
  next
    case False
    obtain b db' where "update_enterprise_value (now_at (ticker r)) db (ticker r) (Some v) = (Inr b, db')"
      using update_enterprise_value_no_raise [of "now_at (ticker r)" db "ticker r" "Some v"]
      by (metis fst_conv surj_pair)
    with Some False show ?thesis by (simp add: ev_step_def store_call_def)
  qed
qed

lemma fold_ev_step_tally:
  "snd (fold (ev_step now_at fails p) rs (db, s, e)) =
     (s + length (filter (\<lambda>r. get_enterprise_value p (Stock (ticker r)) \<noteq> None \<and> \<not> fails (ticker r)) rs),
      e + length (filter (\<lambda>r. get_enterprise_value p (Stock (ticker r)) \<noteq> None \<and> fails (ticker r)) rs))"
proof (induction rs arbitrary: db s e)
  case Nil
  then show ?case by simp
next
  case (Cons r rs)
  obtain db' s' e' where st: "ev_step now_at fails p r (db, s, e) = (db', s', e')"
    by (metis surj_pair)
  with ev_step_tally [of now_at fails p r db s e]
  have t: "s' = s + (if get_enterprise_value p (Stock (ticker r)) \<noteq> None \<and> \<not> fails (ticker r) then 1 else 0)"
    "e' = e + (if get_enterprise_value p (Stock (ticker r)) \<noteq> None \<and> fails (ticker r) then 1 else 0)"
    by simp_all
  show ?case
    by (simp only: fold_simps st Cons.IH t) auto
qed

lemma update_years_fst:
  assumes "set years \<subseteq> set [2021, 2022, 2023, 2024, 2025]"
  shows "fst (update_years now_at fails d t years db) =
     (if list_ex (\<lambda>year. getattr_fcf year d \<noteq> None \<and> fails t year) years
      then Inl StorageError else Inr ())"
  using assms
proof (induction years arbitrary: db)
  case Nil
  then show ?case by simp
next
  case (Cons year years)
  then have y: "year \<in> set [2021, 2022, 2023, 2024, 2025]" and
    ys: "set years \<subseteq> set [2021, 2022, 2023, 2024, 2025]"
    by auto
  show ?case
  proof (cases "getattr_fcf year d")
    case None
    with Cons.IH [OF ys] show ?thesis by simp
  next
    case (Some v)
    show ?thesis
    proof (cases "fails t year")
      case True
      with Some show ?thesis by (simp add: store_call_def)
    next
      case False
      obtain b db' where "update_fcf (now_at t year) db t year (Some v) = (Inr b, db')"
        using update_fcf_no_raise [OF y, of "now_at t year" db t "Some v"]
        by (metis fst_conv surj_pair)
      with Some False Cons.IH [OF ys] show ?thesis by (simp add: store_call_def)
    qed
  qed
qed

lemma fcf_step_tally:
  "snd (fcf_step now_at fails p r (db, s, e)) =
     (s + (if raises_fcf fails (get_free_cash_flow p (Stock (ticker r))) (ticker r) then 0 else 1),
      e + (if raises_fcf fails (get_free_cash_flow p (Stock (ticker r))) (ticker r) then 1 else 0))"
proof -
  let ?d = "get_free_cash_flow p (Stock (ticker r))"
  let ?u = "update_years now_at fails ?d (ticker r) [2025, 2024, 2023, 2022, 2021] db"
  have "fst ?u = (if raises_fcf fails ?d (ticker r) then Inl StorageError else Inr ())"
    unfolding raises_fcf_def by (rule update_years_fst) simp
  then show ?thesis
    by (cases ?u) (auto simp: fcf_step_def Let_def)
qed

lemma fold_fcf_step_tally:
  "snd (fold (fcf_step now_at fails p) rs (db, s, e)) =
     (s + length (filter (\<lambda>r. \<not> raises_fcf fails (get_free_cash_flow p (Stock (ticker r))) (ticker r)) rs),
      e + length (filter (\<lambda>r. raises_fcf fails (get_free_cash_flow p (Stock (ticker r))) (ticker r)) rs))"
proof (induction rs arbitrary: db s e)
  case Nil
  then show ?case by simp
next
  case (Cons r rs)
  obtain db' s' e' where st: "fcf_step now_at fails p r (db, s, e) = (db', s', e')"
    by (metis surj_pair)
  with fcf_step_tally [of now_at fails p r db s e]
  have t: "s' = s + (if raises_fcf fails (get_free_cash_flow p (Stock (ticker r))) (ticker r) then 0 else 1)"
    "e' = e + (if raises_fcf fails (get_free_cash_flow p (Stock (ticker r))) (ticker r) then 1 else 0)"
    by simp_all
  show ?case
    by (simp only: fold_simps st Cons.IH t) auto
qed

lemma length_filter_get_all:
  "length (filter P (get_all db)) = length (filter P db)"
  by (simp add: get_all_def filter_sort)

lemma refresh_enterprise_values_tally:
  "snd (refresh_enterprise_values now_at fails p db) =
     (length (filter (\<lambda>r. get_enterprise_value p (Stock (ticker r)) \<noteq> None \<and> \<not> fails (ticker r)) db),
      length (filter (\<lambda>r. get_enterprise_value p (Stock (ticker r)) \<noteq> None \<and> fails (ticker r)) db))"
  by (simp add: refresh_enterprise_values_def fold_ev_step_tally length_filter_get_all)

lemma refresh_fcf_values_tally:
  "snd (refresh_fcf_values now_at fails p db) =
     (length (filter (\<lambda>r. \<not> raises_fcf fails (get_free_cash_flow p (Stock (ticker r))) (ticker r)) db),
      length (filter (\<lambda>r. raises_fcf fails (get_free_cash_flow p (Stock (ticker r))) (ticker r)) db))"
  by (simp add: refresh_fcf_values_def fold_fcf_step_tally length_filter_get_all)

lemma batch_stocks:
  "Stock ''A'' = ''A''" "Stock ''B'' = ''B''" "Stock ''C'' = ''C''" "Stock ''D'' = ''D''"
  "Stock ''E'' = ''E''" "Stock ''F'' = ''F''" "Stock ''G'' = ''G''" "Stock ''H'' = ''H''"
  "Stock ''I'' = ''I''" "Stock ''J'' = ''J''"
  by code_simp+

lemma ticker_stock_row [simp]: "ticker (stock_row t) = t"
  by (simp add: stock_row_def)

lemma get_enterprise_value_e_down:
  "get_enterprise_value provider_e_down t = (if t = ''E'' then None else Some 2000)"
  by (simp add: get_enterprise_value_def provider_e_down_def)

text \<open>
  Claim C8, as stated, fails. In a batch of ten tickers where the provider raises for
  exactly one, the exception is absorbed in \<^verbatim>\<open>get_enterprise_value\<close> and
  \<^verbatim>\<open>get_free_cash_flow\<close> and never reaches the handler of the job: the
  enterprise-value job reports 9 updated and 0 errors, the free-cash-flow job 10 updated
  and 0 errors, not 9 and 1.
\<close>

theorem refresh_tally_counterexample:
  "length batch_db = 10 \<and>
   filter (\<lambda>t. info provider_e_down t = Inl ProviderError) (map ticker batch_db) = [''E''] \<and>
   snd (refresh_enterprise_values (\<lambda>t. ''2026-03-01T22:00:00'') (\<lambda>t. False) provider_e_down
          batch_db) = (9, 0) \<and>
   snd (refresh_fcf_values (\<lambda>t y. ''2026-03-01T22:30:00'') (\<lambda>t y. False) provider_e_down
          batch_db) = (10, 0)"
proof -
  have 1: "length batch_db = 10" by (simp add: batch_db_def)
  have 2: "filter (\<lambda>t. info provider_e_down t = Inl ProviderError) (map ticker batch_db) = [''E'']"
    by (simp add: batch_db_def provider_e_down_def)
  have 3: "snd (refresh_enterprise_values (\<lambda>t. ''2026-03-01T22:00:00'') (\<lambda>t. False)
      provider_e_down batch_db) = (9, 0)"
    unfolding refresh_enterprise_values_tally
    by (simp add: batch_db_def batch_stocks get_enterprise_value_e_down)
  have 4: "snd (refresh_fcf_values (\<lambda>t y. ''2026-03-01T22:30:00'') (\<lambda>t y. False)
      provider_e_down batch_db) = (10, 0)"
    unfolding refresh_fcf_values_tally
    by (simp add: batch_db_def raises_fcf_def)
  from 1 2 3 4 show ?thesis by blast
qed

lemma find_key_iff: "find (\<lambda>x. ticker x = k) db \<noteq> None \<longleftrightarrow> k \<in> set (map ticker db)"
  by (induction db) auto

lemma find_distinct_self:
  "distinct (map ticker db) \<Longrightarrow> r \<in> set db \<Longrightarrow> find (\<lambda>x. ticker x = ticker r) db = Some r"
proof -
  assume d: "distinct (map ticker db)" and r: "r \<in> set db"
  then have "find (\<lambda>x. ticker x = ticker r) db \<noteq> None"
    unfolding find_key_iff by simp
  then obtain rcd where f: "find (\<lambda>x. ticker x = ticker r) db = Some rcd" by blast
  from find_distinct_key [OF d f r] f show ?thesis by simp
qed

lemma update_enterprise_value_other:
  "k \<noteq> upper t \<Longrightarrow>
   find (\<lambda>x. ticker x = k) (snd (update_enterprise_value now db t v)) =
   find (\<lambda>x. ticker x = k) db"
proof (cases rule: update_enterprise_value_cases [of now db t v])
  case unchanged
  then show ?thesis by simp
next
  case (written rcd y)
  assume "k \<noteq> upper t"
  then show ?thesis unfolding written(3) snd_conv
    by (intro find_sql_update_other) simp_all
qed

lemma update_fcf_other:
  "k \<noteq> upper t \<Longrightarrow>
   find (\<lambda>x. ticker x = k) (snd (update_fcf now db t year v)) = find (\<lambda>x. ticker x = k) db"
proof (cases rule: update_fcf_cases [of now db t year v])
  case unchanged
  then show ?thesis by simp
next
  case (written rcd a yl)
  assume "k \<noteq> upper t"
  then show ?thesis unfolding written(5) snd_conv
    by (intro find_sql_update_other) simp_all
qed

lemma update_fcf_keys: "map ticker (snd (update_fcf now db t year v)) = map ticker db"
proof (cases rule: update_fcf_cases [of now db t year v])
  case unchanged
  then show ?thesis by simp
next
  case (written rcd a yl)
  show ?thesis unfolding written(5) snd_conv
    by (rule map_ticker_sql_update) simp
qed

text \<open>One step of the enterprise-value job.\<close>

lemma ev_step_other:
  assumes "k \<noteq> upper (ticker r)"
  shows "find (\<lambda>x. ticker x = k) (fst (ev_step now_at fails p r st)) =
    find (\<lambda>x. ticker x = k) (fst st)"
proof -
  obtain db s e where st: "st = (db, s, e)" by (metis surj_pair)
  show ?thesis
  proof (cases "get_enterprise_value p (Stock (ticker r))")
    case None
    then show ?thesis by (simp add: st ev_step_def)
  next
    case (Some v)
    show ?thesis
    proof (cases "fails (ticker r)")
      case True
      with Some show ?thesis by (simp add: st ev_step_def store_call_def)
    next
      case False
      let ?u = "update_enterprise_value (now_at (ticker r)) db (ticker r) (Some v)"
      have "fst (ev_step now_at fails p r st) = snd ?u"
        using Some False
        by (cases ?u) (auto simp: st ev_step_def store_call_def split: sum.splits)
      with update_enterprise_value_other [OF assms] show ?thesis by (simp add: st)
    qed
  qed
qed

lemma ev_step_own:
  assumes f: "find (\<lambda>x. ticker x = upper (ticker r)) (fst st) = Some row"
  shows "\<exists>row'. find (\<lambda>x. ticker x = upper (ticker r)) (fst (ev_step now_at fails p r st)) = Some row' \<and>
    (row = r \<longrightarrow> ev_refreshed now_at fails p r row')"
proof -
  obtain db s e where st: "st = (db, s, e)" by (metis surj_pair)
  from f have fd: "find (\<lambda>x. ticker x = upper (ticker r)) db = Some row" by (simp add: st)
  show ?thesis
  proof (cases "get_enterprise_value p (Stock (ticker r))")
    case None
    then have "fst (ev_step now_at fails p r st) = db" by (simp add: st ev_step_def)
    with fd None show ?thesis by (simp add: ev_refreshed_def)
  next
    case (Some v)
    show ?thesis
    proof (cases "fails (ticker r)")
      case True
      with Some have "fst (ev_step now_at fails p r st) = db"
        by (simp add: st ev_step_def store_call_def)
      with fd Some True show ?thesis by (simp add: ev_refreshed_def)
    next
      case False
      let ?now = "now_at (ticker r)"
      let ?u = "update_enterprise_value ?now db (ticker r) (Some v)"
      from fd have g: "get db (ticker r) = Some row" by (simp add: get_def)
      obtain y where y: "calculate_fcf_yield (average_fcf row) (Some v) = Inr y"
        using calculate_fcf_yield_total by blast
      let ?f = "\<lambda>x. x\<lparr>enterprise_value := Some v, fcf_yield := y, last_updated := ?now\<rparr>"
      from g y have u: "?u = (Inr True, sql_update (upper (ticker r)) ?f db)"
        by (simp add: update_enterprise_value_def)
      with Some False have "fst (ev_step now_at fails p r st) = sql_update (upper (ticker r)) ?f db"
        by (simp add: st ev_step_def store_call_def)
      moreover have "ticker row = upper (ticker r)"
        using fd by (auto dest: find_SomeD)
      then have "find (\<lambda>x. ticker x = upper (ticker r)) (sql_update (upper (ticker r)) ?f db) =
          Some (?f row)"
        using fd by (intro find_sql_update) simp_all
      moreover have "row = r \<longrightarrow> ev_refreshed now_at fails p r (?f row)"
        using Some False y by (auto simp: ev_refreshed_def)
      ultimately show ?thesis by simp
    qed
  qed
qed

text \<open>The fold of steps that each touch only the row of their own key.\<close>

lemma fold_keyed_other:
  fixes step :: "StockRecord \<Rightarrow> table \<times> nat \<times> nat \<Rightarrow> table \<times> nat \<times> nat"
  assumes other: "\<And>r st k. k \<noteq> upper (ticker r) \<Longrightarrow>
      find (\<lambda>x. ticker x = k) (fst (step r st)) = find (\<lambda>x. ticker x = k) (fst st)"
    and k: "k \<notin> (\<lambda>r. upper (ticker r)) ` set rs"
  shows "find (\<lambda>x. ticker x = k) (fst (fold step rs st)) = find (\<lambda>x. ticker x = k) (fst st)"
  using k
proof (induction rs arbitrary: st)
  case Nil
  then show ?case by simp
next
  case (Cons a rs)
  then have "k \<noteq> upper (ticker a)" "k \<notin> (\<lambda>r. upper (ticker r)) ` set rs" by auto
  with Cons.IH [of "step a st"] other [of k a st] show ?case by simp
qed

lemma fold_keyed_own:
  fixes step :: "StockRecord \<Rightarrow> table \<times> nat \<times> nat \<Rightarrow> table \<times> nat \<times> nat"
  assumes other: "\<And>r st k. k \<noteq> upper (ticker r) \<Longrightarrow>
      find (\<lambda>x. ticker x = k) (fst (step r st)) = find (\<lambda>x. ticker x = k) (fst st)"
    and own: "\<And>r st row. find (\<lambda>x. ticker x = upper (ticker r)) (fst st) = Some row \<Longrightarrow>
      \<exists>row'. find (\<lambda>x. ticker x = upper (ticker r)) (fst (step r st)) = Some row' \<and> E r row row'"
    and d: "distinct (map (\<lambda>r. upper (ticker r)) rs)"
    and r: "r \<in> set rs"
    and f: "find (\<lambda>x. ticker x = upper (ticker r)) (fst st) = Some row"
  shows "\<exists>row'. find (\<lambda>x. ticker x = upper (ticker r)) (fst (fold step rs st)) = Some row' \<and>
    E r row row'"
  using d r f
proof (induction rs arbitrary: st)
  case Nil
  then show ?case by simp
next
  case (Cons a rs)
  from Cons.prems(1) have na: "upper (ticker a) \<notin> (\<lambda>r. upper (ticker r)) ` set rs"
    and d': "distinct (map (\<lambda>r. upper (ticker r)) rs)"
    by auto
  show ?case
  proof (cases "upper (ticker r) = upper (ticker a)")
    case True
    from own [of a st row] Cons.prems(3) True obtain row' where
      s: "find (\<lambda>x. ticker x = upper (ticker a)) (fst (step a st)) = Some row'" and
      e: "E a row row'"
      by auto
    from True na Cons.prems(2) have "r = a" by (metis image_eqI set_ConsD)
    moreover have "find (\<lambda>x. ticker x = upper (ticker a)) (fst (fold step rs (step a st))) =
        find (\<lambda>x. ticker x = upper (ticker a)) (fst (step a st))"
      using other na by (rule fold_keyed_other)
    ultimately show ?thesis using s e by simp
  next
    case False
    with Cons.prems(2) have r: "r \<in> set rs" by auto
    from False other [of "upper (ticker r)" a st] Cons.prems(3)
    have "find (\<lambda>x. ticker x = upper (ticker r)) (fst (step a st)) = Some row" by simp
    from Cons.IH [OF d' r this] show ?thesis by simp
  qed
qed

lemma get_all_keys:
  assumes d: "distinct (map ticker db)" and c: "\<forall>r \<in> set db. upper (ticker r) = ticker r"
  shows "distinct (map (\<lambda>r. upper (ticker r)) (get_all db))"
proof -
  have e: "map (\<lambda>r. upper (ticker r)) (get_all db) = map ticker (get_all db)"
    using c by (intro map_cong) (simp_all add: get_all_def)
  have "distinct (map ticker (get_all db))"
    using d by (simp add: get_all_def distinct_map)
  then show ?thesis unfolding e .
qed

lemma refresh_enterprise_values_rows:
  assumes d: "distinct (map ticker db)" and c: "\<forall>r \<in> set db. upper (ticker r) = ticker r"
    and r: "r \<in> set db"
  shows "\<exists>r'. get (fst (refresh_enterprise_values now_at fails p db)) (ticker r) = Some r' \<and>
    ev_refreshed now_at fails p r r'"
proof -
  from c r have k: "upper (ticker r) = ticker r" by blast
  have f: "find (\<lambda>x. ticker x = upper (ticker r)) (fst (db, 0::nat, 0::nat)) = Some r"
    using find_distinct_self [OF d r] k by simp
  have "\<exists>row'. find (\<lambda>x. ticker x = upper (ticker r))
      (fst (fold (ev_step now_at fails p) (get_all db) (db, 0, 0))) = Some row' \<and>
      (r = r \<longrightarrow> ev_refreshed now_at fails p r row')"
  proof (rule fold_keyed_own [where E = "\<lambda>r row row'. row = r \<longrightarrow> ev_refreshed now_at fails p r row'"])
    show "distinct (map (\<lambda>r. upper (ticker r)) (get_all db))" using d c by (rule get_all_keys)
    show "r \<in> set (get_all db)" using r by (simp add: get_all_def)
    show "find (\<lambda>x. ticker x = upper (ticker r)) (fst (db, 0::nat, 0::nat)) = Some r" by (rule f)
  next
    fix a :: StockRecord and st :: "table \<times> nat \<times> nat" and k
    assume "k \<noteq> upper (ticker a)"
    then show "find (\<lambda>x. ticker x = k) (fst (ev_step now_at fails p a st)) =
      find (\<lambda>x. ticker x = k) (fst st)"
      by (rule ev_step_other)
  next
    fix a :: StockRecord and st :: "table \<times> nat \<times> nat" and row
    assume "find (\<lambda>x. ticker x = upper (ticker a)) (fst st) = Some row"
    then show "\<exists>row'. find (\<lambda>x. ticker x = upper (ticker a)) (fst (ev_step now_at fails p a st)) =
        Some row' \<and> (row = a \<longrightarrow> ev_refreshed now_at fails p a row')"
      by (rule ev_step_own)
  qed
  then show ?thesis by (simp add: refresh_enterprise_values_def get_def)
qed


text \<open>One step of the free-cash-flow job.\<close>

lemma store_call_update_fcf_other:
  "k \<noteq> upper t \<Longrightarrow>
   find (\<lambda>x. ticker x = k) (snd (store_call b db (update_fcf now db t year v))) =
   find (\<lambda>x. ticker x = k) db"
  by (simp add: store_call_def update_fcf_other)

lemma update_years_other:
  assumes "k \<noteq> upper t"
  shows "find (\<lambda>x. ticker x = k) (snd (update_years now_at fails d t years db)) =
    find (\<lambda>x. ticker x = k) db"
proof (induction years arbitrary: db)
  case Nil
  then show ?case by simp
next
  case (Cons year years)
  show ?case
  proof (cases "getattr_fcf year d")
    case None
    with Cons.IH show ?thesis by simp
  next
    case (Some v)
    let ?c = "store_call (fails t year) db (update_fcf (now_at t year) db t year (Some v))"
    have o: "find (\<lambda>x. ticker x = k) (snd ?c) = find (\<lambda>x. ticker x = k) db"
      using assms by (rule store_call_update_fcf_other)
    obtain res db' where c: "?c = (res, db')" by (metis surj_pair)
    with o have o': "find (\<lambda>x. ticker x = k) db' = find (\<lambda>x. ticker x = k) db" by simp
    show ?thesis
    proof (cases res)
      case (Inl e)
      with Some c o' show ?thesis by simp
    next
      case (Inr b)
      with Some c o' Cons.IH [of db'] show ?thesis by simp
    qed
  qed
qed

lemma update_years_keys:
  "map ticker (snd (update_years now_at fails d t years db)) = map ticker db"
proof (induction years arbitrary: db)
  case Nil
  then show ?case by simp
next
  case (Cons year years)
  show ?case
  proof (cases "getattr_fcf year d")
    case None
    with Cons.IH show ?thesis by simp
  next
    case (Some v)
    let ?c = "store_call (fails t year) db (update_fcf (now_at t year) db t year (Some v))"
    have o: "map ticker (snd ?c) = map ticker db"
      by (simp add: store_call_def update_fcf_keys)
    obtain res db' where c: "?c = (res, db')" by (metis surj_pair)
    with o have o': "map ticker db' = map ticker db" by simp
    show ?thesis
    proof (cases res)
      case (Inl e)
      with Some c o' show ?thesis by simp
    next
      case (Inr b)
      with Some c o' Cons.IH [of db'] show ?thesis by simp
    qed
  qed
qed

lemma update_fcf_own:
  assumes y: "year \<in> set [2021, 2022, 2023, 2024, 2025]"
    and f: "find (\<lambda>x. ticker x = upper t) db = Some row"
  shows "\<exists>row'. find (\<lambda>x. ticker x = upper t) (snd (update_fcf now db t year v)) = Some row' \<and>
    fst (update_fcf now db t year v) = Inr True \<and>
    (\<forall>y. fcf_of y row' = (if y = year then v else fcf_of y row)) \<and>
    enterprise_value row' = enterprise_value row \<and> ticker row' = ticker row \<and>
    company_name row' = company_name row"
proof -
  from f have g: "get db t = Some row" by (simp add: get_def)
  from update_fcf_found [OF y g, of v now] obtain a yl where
    u: "update_fcf now db t year v =
       (Inr True, sql_update (upper t)
          (\<lambda>r. (set_fcf year v r)\<lparr>average_fcf := a, fcf_yield := yl, last_updated := now\<rparr>) db)"
    by blast
  let ?f = "\<lambda>r. (set_fcf year v r)\<lparr>average_fcf := a, fcf_yield := yl, last_updated := now\<rparr>"
  have k: "ticker row = upper t" using f by (auto dest: find_SomeD)
  have "find (\<lambda>x. ticker x = upper t) (sql_update (upper t) ?f db) = Some (?f row)"
    using f k by (intro find_sql_update) simp_all
  moreover have "fcf_of y (?f row) = (if y = year then v else fcf_of y row)" for y
  proof -
    have "fcf_of y (?f row) = fcf_of y (set_fcf year v row)" by (simp add: fcf_of_def)
    then show ?thesis by (simp add: fcf_of_set_fcf [OF assms(1)])
  qed
  ultimately show ?thesis unfolding u by simp
qed

lemma update_years_own:
  assumes "set years \<subseteq> set [2021, 2022, 2023, 2024, 2025]"
    and "\<not> list_ex (\<lambda>year. getattr_fcf year d \<noteq> None \<and> fails t year) years"
    and "find (\<lambda>x. ticker x = upper t) db = Some row"
  shows "\<exists>row'. find (\<lambda>x. ticker x = upper t) (snd (update_years now_at fails d t years db)) = Some row' \<and>
    (\<forall>y. fcf_of y row' =
       (if y \<in> set years then (case getattr_fcf y d of Some v \<Rightarrow> Some v | None \<Rightarrow> fcf_of y row)
        else fcf_of y row)) \<and>
    enterprise_value row' = enterprise_value row \<and> ticker row' = ticker row \<and>
    company_name row' = company_name row"
  using assms
proof (induction years arbitrary: db row)
  case Nil
  then show ?case by simp
next
  case (Cons year years)
  from Cons.prems(1) have y: "year \<in> set [2021, 2022, 2023, 2024, 2025]" and
    ys: "set years \<subseteq> set [2021, 2022, 2023, 2024, 2025]"
    by auto
  from Cons.prems(2) have nf: "getattr_fcf year d \<noteq> None \<longrightarrow> \<not> fails t year" and
    nfs: "\<not> list_ex (\<lambda>year. getattr_fcf year d \<noteq> None \<and> fails t year) years"
    by auto
  show ?case
  proof (cases "getattr_fcf year d")
    case None
    from Cons.IH [OF ys nfs Cons.prems(3)] obtain row' where
      r: "find (\<lambda>x. ticker x = upper t) (snd (update_years now_at fails d t years db)) = Some row'"
      and v: "\<forall>y. fcf_of y row' =
       (if y \<in> set years then (case getattr_fcf y d of Some v \<Rightarrow> Some v | None \<Rightarrow> fcf_of y row)
        else fcf_of y row)"
      and o: "enterprise_value row' = enterprise_value row" "ticker row' = ticker row"
        "company_name row' = company_name row"
      by blast
    have "fcf_of y row' =
       (if y \<in> set (year # years)
        then (case getattr_fcf y d of Some v \<Rightarrow> Some v | None \<Rightarrow> fcf_of y row)
        else fcf_of y row)" for y
      using v None by (cases "y = year") simp_all
    with r o None show ?thesis by simp
  next
    case (Some val)
    with nf have nofail: "\<not> fails t year" by simp
    let ?u = "update_fcf (now_at t year) db t year (Some val)"
    from update_fcf_own [OF y Cons.prems(3), of "now_at t year" "Some val"] obtain row1 where
      r1: "find (\<lambda>x. ticker x = upper t) (snd ?u) = Some row1" and
      t1: "fst ?u = Inr True" and
      v1: "\<forall>y. fcf_of y row1 = (if y = year then Some val else fcf_of y row)" and
      o1: "enterprise_value row1 = enterprise_value row" "ticker row1 = ticker row"
        "company_name row1 = company_name row"
      by blast
    from t1 have u: "?u = (Inr True, snd ?u)" by (metis prod.collapse)
    have step: "update_years now_at fails d t (year # years) db =
        update_years now_at fails d t years (snd ?u)"
      using Some nofail u by (simp add: store_call_def) (metis (no_types, lifting) old.prod.case sum.case(2) u)
    from Cons.IH [OF ys nfs r1] obtain row' where
      r: "find (\<lambda>x. ticker x = upper t) (snd (update_years now_at fails d t years (snd ?u))) =
        Some row'"
      and v: "\<forall>y. fcf_of y row' =
       (if y \<in> set years then (case getattr_fcf y d of Some v \<Rightarrow> Some v | None \<Rightarrow> fcf_of y row1)
        else fcf_of y row1)"
      and o: "enterprise_value row' = enterprise_value row1" "ticker row' = ticker row1"
        "company_name row' = company_name row1"
      by blast
    have "fcf_of y row' =
       (if y \<in> set (year # years)
        then (case getattr_fcf y d of Some v \<Rightarrow> Some v | None \<Rightarrow> fcf_of y row)
        else fcf_of y row)" for y
    proof (cases "y = year")
      case True
      with v v1 Some show ?thesis by simp
    next
      case False
      with v1 have "fcf_of y row1 = fcf_of y row" by simp
      with v False show ?thesis by (simp split: option.splits)
    qed
    with r o o1 show ?thesis unfolding step by simp
  qed
qed


lemma fcf_step_fst:
  "fst (fcf_step now_at fails p r (db, s, e)) =
     snd (update_years now_at fails (get_free_cash_flow p (Stock (ticker r))) (ticker r)
            [2025, 2024, 2023, 2022, 2021] db)"
proof -
  let ?u = "update_years now_at fails (get_free_cash_flow p (Stock (ticker r))) (ticker r)
            [2025, 2024, 2023, 2022, 2021] db"
  obtain res db' where u: "?u = (res, db')" by (metis surj_pair)
  then show ?thesis by (cases res) (simp_all add: fcf_step_def Let_def)
qed

lemma fcf_step_other:
  assumes "k \<noteq> upper (ticker r)"
  shows "find (\<lambda>x. ticker x = k) (fst (fcf_step now_at fails p r st)) =
    find (\<lambda>x. ticker x = k) (fst st)"
proof -
  obtain db s e where st: "st = (db, s, e)" by (metis surj_pair)
  show ?thesis unfolding st fcf_step_fst fst_conv using assms by (rule update_years_other)
qed

lemma fcf_step_own:
  assumes f: "find (\<lambda>x. ticker x = upper (ticker r)) (fst st) = Some row"
  shows "\<exists>row'. find (\<lambda>x. ticker x = upper (ticker r)) (fst (fcf_step now_at fails p r st)) = Some row' \<and>
    (row = r \<longrightarrow> fcf_refreshed fails p r row')"
proof -
  obtain db s e where st: "st = (db, s, e)" by (metis surj_pair)
  from f have fd: "find (\<lambda>x. ticker x = upper (ticker r)) db = Some row" by (simp add: st)
  let ?d = "get_free_cash_flow p (Stock (ticker r))"
  let ?db' = "snd (update_years now_at fails ?d (ticker r) [2025, 2024, 2023, 2022, 2021] db)"
  have db': "fst (fcf_step now_at fails p r st) = ?db'" unfolding st by (rule fcf_step_fst)
  show ?thesis
  proof (cases "raises_fcf fails ?d (ticker r)")
    case True
    from fd have "upper (ticker r) \<in> set (map ticker db)"
      unfolding find_key_iff [symmetric] by simp
    then have "upper (ticker r) \<in> set (map ticker ?db')"
      by (simp only: update_years_keys)
    then have "find (\<lambda>x. ticker x = upper (ticker r)) ?db' \<noteq> None"
      unfolding find_key_iff .
    then obtain row' where "find (\<lambda>x. ticker x = upper (ticker r)) ?db' = Some row'" by blast
    with True db' show ?thesis by (simp add: fcf_refreshed_def Let_def)
  next
    case False
    then have nf: "\<not> list_ex (\<lambda>year. getattr_fcf year ?d \<noteq> None \<and> fails (ticker r) year)
        [2025, 2024, 2023, 2022, 2021]"
      unfolding raises_fcf_def .
    have ys: "set [2025, 2024, 2023, 2022, 2021] \<subseteq> set [2021, 2022, 2023, 2024, 2025::int]"
      by simp
    from update_years_own [where fails = fails and t = "ticker r" and d = ?d and db = db
        and row = row and now_at = now_at and years = "[2025, 2024, 2023, 2022, 2021]",
        OF ys nf fd]
    obtain row' where
      r: "find (\<lambda>x. ticker x = upper (ticker r)) ?db' = Some row'" and
      v: "\<forall>y. fcf_of y row' =
       (if y \<in> set [2025, 2024, 2023, 2022, 2021]
        then (case getattr_fcf y ?d of Some v \<Rightarrow> Some v | None \<Rightarrow> fcf_of y row)
        else fcf_of y row)" and
      o: "enterprise_value row' = enterprise_value row" "ticker row' = ticker row"
        "company_name row' = company_name row"
      by blast
    from v have "list_all (\<lambda>year. fcf_of year row' =
        (case getattr_fcf year ?d of Some v \<Rightarrow> Some v | None \<Rightarrow> fcf_of year row))
        [2025, 2024, 2023, 2022, 2021]"
      by simp
    with o have "row = r \<longrightarrow> fcf_refreshed fails p r row'"
      by (auto simp: fcf_refreshed_def Let_def)
    with r db' show ?thesis by simp
  qed
qed

lemma refresh_fcf_values_rows:
  assumes d: "distinct (map ticker db)" and c: "\<forall>r \<in> set db. upper (ticker r) = ticker r"
    and r: "r \<in> set db"
  shows "\<exists>r'. get (fst (refresh_fcf_values now_at fails p db)) (ticker r) = Some r' \<and>
    fcf_refreshed fails p r r'"
proof -
  from c r have k: "upper (ticker r) = ticker r" by blast
  have f: "find (\<lambda>x. ticker x = upper (ticker r)) (fst (db, 0::nat, 0::nat)) = Some r"
    using find_distinct_self [OF d r] k by simp
  have "\<exists>row'. find (\<lambda>x. ticker x = upper (ticker r))
      (fst (fold (fcf_step now_at fails p) (get_all db) (db, 0, 0))) = Some row' \<and>
      (r = r \<longrightarrow> fcf_refreshed fails p r row')"
  proof (rule fold_keyed_own [where E = "\<lambda>r row row'. row = r \<longrightarrow> fcf_refreshed fails p r row'"])
    show "distinct (map (\<lambda>r. upper (ticker r)) (get_all db))" using d c by (rule get_all_keys)
    show "r \<in> set (get_all db)" using r by (simp add: get_all_def)
    show "find (\<lambda>x. ticker x = upper (ticker r)) (fst (db, 0::nat, 0::nat)) = Some r" by (rule f)
  next
    fix a :: StockRecord and st :: "table \<times> nat \<times> nat" and k
    assume "k \<noteq> upper (ticker a)"
    then show "find (\<lambda>x. ticker x = k) (fst (fcf_step now_at fails p a st)) =
      find (\<lambda>x. ticker x = k) (fst st)"
      by (rule fcf_step_other)
  next
    fix a :: StockRecord and st :: "table \<times> nat \<times> nat" and row
    assume "find (\<lambda>x. ticker x = upper (ticker a)) (fst st) = Some row"
    then show "\<exists>row'. find (\<lambda>x. ticker x = upper (ticker a)) (fst (fcf_step now_at fails p a st)) =
        Some row' \<and> (row = a \<longrightarrow> fcf_refreshed fails p a row')"
      by (rule fcf_step_own)
  qed
  then show ?thesis by (simp add: refresh_fcf_values_def get_def)
qed

lemma provider_exception_absorbed:
  "info p t = Inl e \<Longrightarrow> get_enterprise_value p t = None"
  "cash_flow p t = Inl e \<Longrightarrow> \<not> raises_fcf fails (get_free_cash_flow p t) t'"
  by (simp_all add: get_enterprise_value_def get_free_cash_flow_raised raises_fcf_def
      getattr_fcf_def)

text \<open>
  Claim C8, amended. A provider exception is absorbed before it reaches a job: the
  enterprise value is then \<open>None\<close>, the free-cash-flow data empty, and nothing raises
  for the ticker. The enterprise-value job counts as updated the tickers that have a value
  and whose store call does not raise, and as errors those that have a value and whose
  store call raises; a ticker without a value is counted in neither. The free-cash-flow
  job counts as errors the tickers for which a store call raises and as updated all the
  others. In a table with unique, uppercase keys, whatever happens for one ticker, every
  ticker of the table is processed: its row afterwards is the row before with the effect
  of its own step (\<open>ev_refreshed\<close>, \<open>fcf_refreshed\<close>).
\<close>

theorem refresh_tally:
  "(\<forall>t e. info p t = Inl e \<longrightarrow> get_enterprise_value p t = None) \<and>
   (\<forall>t t' e. cash_flow p t = Inl e \<longrightarrow> \<not> raises_fcf ffails (get_free_cash_flow p t) t') \<and>
   snd (refresh_enterprise_values now_at fails p db) =
     (length (filter (\<lambda>r. get_enterprise_value p (Stock (ticker r)) \<noteq> None \<and>
                           \<not> fails (ticker r)) db),
      length (filter (\<lambda>r. get_enterprise_value p (Stock (ticker r)) \<noteq> None \<and>
                           fails (ticker r)) db)) \<and>
   snd (refresh_fcf_values fnow_at ffails p db) =
     (length (filter (\<lambda>r. \<not> raises_fcf ffails (get_free_cash_flow p (Stock (ticker r)))
                             (ticker r)) db),
      length (filter (\<lambda>r. raises_fcf ffails (get_free_cash_flow p (Stock (ticker r)))
                           (ticker r)) db)) \<and>
   (distinct (map ticker db) \<and> (\<forall>r \<in> set db. upper (ticker r) = ticker r) \<longrightarrow>
      (\<forall>r \<in> set db. \<exists>r'.
         get (fst (refresh_enterprise_values now_at fails p db)) (ticker r) = Some r' \<and>
         ev_refreshed now_at fails p r r') \<and>
      (\<forall>r \<in> set db. \<exists>r'.
         get (fst (refresh_fcf_values fnow_at ffails p db)) (ticker r) = Some r' \<and>
         fcf_refreshed ffails p r r'))"
proof -
  have 1: "\<forall>t e. info p t = Inl e \<longrightarrow> get_enterprise_value p t = None"
    using provider_exception_absorbed(1) by blast
  have 2: "\<forall>t t' e. cash_flow p t = Inl e \<longrightarrow> \<not> raises_fcf ffails (get_free_cash_flow p t) t'"
    using provider_exception_absorbed(2) by blast
  have 3: "\<forall>r \<in> set db. \<exists>r'.
        get (fst (refresh_enterprise_values now_at fails p db)) (ticker r) = Some r' \<and>
        ev_refreshed now_at fails p r r'"
    if "distinct (map ticker db)" "\<forall>r \<in> set db. upper (ticker r) = ticker r"
    using refresh_enterprise_values_rows [OF that] by blast
  have 4: "\<forall>r \<in> set db. \<exists>r'.
        get (fst (refresh_fcf_values fnow_at ffails p db)) (ticker r) = Some r' \<and>
        fcf_refreshed ffails p r r'"
    if "distinct (map ticker db)" "\<forall>r \<in> set db. upper (ticker r) = ticker r"
    using refresh_fcf_values_rows [OF that] by blast
  from 3 4 have 5: "distinct (map ticker db) \<and> (\<forall>r \<in> set db. upper (ticker r) = ticker r) \<longrightarrow>
      (\<forall>r \<in> set db. \<exists>r'.
         get (fst (refresh_enterprise_values now_at fails p db)) (ticker r) = Some r' \<and>
         ev_refreshed now_at fails p r r') \<and>
      (\<forall>r \<in> set db. \<exists>r'.
         get (fst (refresh_fcf_values fnow_at ffails p db)) (ticker r) = Some r' \<and>
         fcf_refreshed ffails p r r')"
    by blast
  note 6 = refresh_enterprise_values_tally [of now_at fails p db]
  note 7 = refresh_fcf_values_tally [of fnow_at ffails p db]
  show ?thesis
    by (intro conjI) (rule 1, rule 2, rule 6, rule 7, rule 5)
qed

lemma batch_uppers:
  "upper ''A'' = ''A''" "upper ''B'' = ''B''" "upper ''C'' = ''C''" "upper ''D'' = ''D''"
  "upper ''E'' = ''E''" "upper ''F'' = ''F''" "upper ''G'' = ''G''" "upper ''H'' = ''H''"
  "upper ''I'' = ''I''" "upper ''J'' = ''J''"
  by code_simp+

theorem refresh_tally_witness:
  "distinct (map ticker batch_db) \<and> upper ''A'' = ''A'' \<and>
   snd (refresh_enterprise_values (\<lambda>t. ''2026-03-01T22:00:00'') (\<lambda>t. t = ''B'') provider_e_down
          batch_db) = (8, 1) \<and>
   snd (refresh_fcf_values (\<lambda>t y. ''2026-03-01T22:30:00'') (\<lambda>t y. False) provider_e_down
          batch_db) = (10, 0) \<and>
   (\<exists>r'. get (fst (refresh_enterprise_values (\<lambda>t. ''2026-03-01T22:00:00'') (\<lambda>t. t = ''B'')
             provider_e_down batch_db)) ''A'' = Some r' \<and>
         enterprise_value r' = Some 2000)"
proof -
  have d: "distinct (map ticker batch_db)" by (simp add: batch_db_def)
  have c: "\<forall>r \<in> set batch_db. upper (ticker r) = ticker r"
    by (simp add: batch_db_def batch_uppers)
  note t = refresh_tally [of provider_e_down "\<lambda>t y. False" "\<lambda>t. ''2026-03-01T22:00:00''"
      "\<lambda>t. t = ''B''" batch_db "\<lambda>t y. ''2026-03-01T22:30:00''"]
  note ev_tally = t [THEN conjunct2, THEN conjunct2, THEN conjunct1]
  note fcf_tally = t [THEN conjunct2, THEN conjunct2, THEN conjunct2, THEN conjunct1]
  note rows = t [THEN conjunct2, THEN conjunct2, THEN conjunct2, THEN conjunct2, THEN mp,
      OF conjI [OF d c]]
  note ev_rows = rows [THEN conjunct1]
  have 1: "snd (refresh_enterprise_values (\<lambda>t. ''2026-03-01T22:00:00'') (\<lambda>t. t = ''B'')
      provider_e_down batch_db) = (8, 1)"
    unfolding ev_tally
    by (simp add: batch_db_def batch_stocks get_enterprise_value_e_down)
  have 2: "snd (refresh_fcf_values (\<lambda>t y. ''2026-03-01T22:30:00'') (\<lambda>t y. False)
      provider_e_down batch_db) = (10, 0)"
    unfolding fcf_tally
    by (simp add: batch_db_def raises_fcf_def)
  have "stock_row ''A'' \<in> set batch_db" by (simp add: batch_db_def)
  from ev_rows [rule_format, OF this] obtain r' where
    g: "get (fst (refresh_enterprise_values (\<lambda>t. ''2026-03-01T22:00:00'') (\<lambda>t. t = ''B'')
             provider_e_down batch_db)) (ticker (stock_row ''A'')) = Some r'" and
    e: "ev_refreshed (\<lambda>t. ''2026-03-01T22:00:00'') (\<lambda>t. t = ''B'') provider_e_down
      (stock_row ''A'') r'"
    by blast
  have y: "calculate_fcf_yield (average_fcf (stock_row ''A'')) (Some 2000) =
      Inr (Some (to_double (3 / 40)))"
    by (simp add: stock_row_def row_aapl_def yield_examples)
  from e have "r' = (stock_row ''A'')\<lparr>enterprise_value := Some 2000, fcf_yield := Some (to_double (3 / 40)),
      last_updated := ''2026-03-01T22:00:00''\<rparr>"
    unfolding ev_refreshed_def ticker_stock_row batch_stocks get_enterprise_value_e_down
    by (simp add: y)
  then have "enterprise_value r' = Some 2000" by simp
  with g have 3: "\<exists>r'. get (fst (refresh_enterprise_values (\<lambda>t. ''2026-03-01T22:00:00'')
      (\<lambda>t. t = ''B'') provider_e_down batch_db)) ''A'' = Some r' \<and>
         enterprise_value r' = Some 2000"
    by auto
  from d batch_uppers(1) 1 2 3 show ?thesis by blast
qed

end
